theory Spec2Isabelle
  imports Complex_Main "HOL-Library.Code_Target_Nat"
begin

section \<open>Strings and character classes\<close>

text \<open>
  A JavaScript string is a sequence of UTF-16 code units. The patterns of
  \<^verbatim>\<open>src/index.js\<close> carry no \<^verbatim>\<open>u\<close> flag, so every pattern, \<^verbatim>\<open>trim\<close>,
  \<^verbatim>\<open>split\<close>, \<^verbatim>\<open>length\<close> and indexing work on code units; a string is modelled
  as the list of its code units. \<open>str\<close> writes an ASCII literal.
\<close>

type_synonym jsstring = "nat list"

definition str :: "string \<Rightarrow> jsstring" where
  "str cs = map of_char cs"

text \<open>A character set is a list of inclusive code-unit ranges.\<close>

type_synonym charset = "(nat \<times> nat) list"

definition in_ranges :: "charset \<Rightarrow> nat \<Rightarrow> bool" where
  "in_ranges rs c = list_ex (\<lambda>r. fst r \<le> c \<and> c \<le> snd r) rs"

definition chars :: "string \<Rightarrow> charset" where
  "chars cs = map (\<lambda>c. (of_char c, of_char c)) cs"

text \<open>
  ECMAScript \<^verbatim>\<open>LineTerminator\<close>: LF, CR, U+2028, U+2029; and the set that
  \<^verbatim>\<open>\s\<close> and \<^verbatim>\<open>String.prototype.trim\<close> use (\<^verbatim>\<open>WhiteSpace\<close> and
  \<^verbatim>\<open>LineTerminator\<close>): TAB, LF, VT, FF, CR, SP, NBSP, U+1680, U+2000..U+200A,
  U+2028, U+2029, U+202F, U+205F, U+3000, U+FEFF.
\<close>

definition LineTerminator :: charset where
  "LineTerminator = [(10, 10), (13, 13), (8232, 8233)]"

definition WhiteSpace :: charset where
  "WhiteSpace = [(9, 13), (32, 32), (160, 160), (5760, 5760), (8192, 8202),
     (8232, 8233), (8239, 8239), (8287, 8287), (12288, 12288), (65279, 65279)]"

definition WordChar :: charset where
  "WordChar = [(48, 57), (65, 90), (95, 95), (97, 122)]"

definition Digit :: charset where
  "Digit = [(48, 57)]"

definition isLineTerminator :: "nat \<Rightarrow> bool" where
  "isLineTerminator c = in_ranges LineTerminator c"

definition isWhiteSpace :: "nat \<Rightarrow> bool" where
  "isWhiteSpace c = in_ranges WhiteSpace c"

definition isWordChar :: "nat \<Rightarrow> bool" where
  "isWordChar c = in_ranges WordChar c"

text \<open>\<^verbatim>\<open>String.prototype.trim\<close>: strip white space from both ends.\<close>

definition trim :: "jsstring \<Rightarrow> jsstring" where
  "trim s = rev (dropWhile isWhiteSpace (rev (dropWhile isWhiteSpace s)))"

text \<open>
  \<^verbatim>\<open>s.split('\n')\<close>: the pieces between line feeds; always at least one piece.
\<close>

fun split_lf :: "jsstring \<Rightarrow> jsstring list" where
  "split_lf [] = [[]]"
| "split_lf (c # cs) =
     (if c = 10 then [] # split_lf cs
      else (case split_lf cs of [] \<Rightarrow> [[c]] | l # ls \<Rightarrow> (c # l) # ls))"

text \<open>
  \<^verbatim>\<open>s.split(/\r?\n/)\<close>: a separator is a line feed together with one
  carriage return directly before it, if there is one. So every piece that a
  separator ends loses one trailing CR; the last piece keeps its own.
\<close>

definition strip_cr :: "jsstring \<Rightarrow> jsstring" where
  "strip_cr l = (if l \<noteq> [] \<and> last l = 13 then butlast l else l)"

definition split_crlf :: "jsstring \<Rightarrow> jsstring list" where
  "split_crlf s = (let ps = split_lf s in map strip_cr (butlast ps) @ [last ps])"

text \<open>\<^verbatim>\<open>s.replace(/\r\n?/g, '\n')\<close>: CR LF and a lone CR both become LF.\<close>

fun normalize_newlines :: "jsstring \<Rightarrow> jsstring" where
  "normalize_newlines [] = []"
| "normalize_newlines [c] = (if c = 13 then [10] else [c])"
| "normalize_newlines (c # d # cs) =
     (if c = 13 then (if d = 10 then 10 # normalize_newlines cs
                      else 10 # normalize_newlines (d # cs))
      else c # normalize_newlines (d # cs))"

section \<open>Regular expressions\<close>

text \<open>
  The pattern syntax the source uses: character classes (plain and negated,
  with \<^verbatim>\<open>\s \S \w \d .\<close> as classes), literals, sequence, alternation, greedy and
  lazy quantifiers, the assertions \<^verbatim>\<open>^ $ \b\<close> and negative lookahead. Capture
  groups only group here: the one pattern with a back-reference, \<^verbatim>\<open>/(.)\1{4,}/\<close>,
  is \<open>has_run5\<close> below.
\<close>

datatype regex =
    Eps
  | Cls bool charset
  | Lit jsstring
  | Seq regex regex
  | Alt regex regex
  | Rep bool nat "nat option" regex
  | Bol
  | Eol
  | WordB
  | NotAhead regex

text \<open>
  \<open>Cls neg rs\<close> is \<^verbatim>\<open>[...]\<close> (\<open>neg = False\<close>) or \<^verbatim>\<open>[^...]\<close> (\<open>neg = True\<close>);
  \<open>Rep greedy min max r\<close> is \<^verbatim>\<open>r{min,max}\<close>, with \<open>None\<close> for no upper bound.
\<close>

definition seqs :: "regex list \<Rightarrow> regex" where
  "seqs rs = foldr Seq rs Eps"

definition alts :: "regex list \<Rightarrow> regex" where
  "alts rs = (if rs = [] then Eps else foldr Alt (butlast rs) (last rs))"

definition r_chr :: "char \<Rightarrow> regex" where
  "r_chr c = Cls False [(of_char c, of_char c)]"

definition r_star :: "regex \<Rightarrow> regex" where "r_star r = Rep True 0 None r"
definition r_lazy_star :: "regex \<Rightarrow> regex" where "r_lazy_star r = Rep False 0 None r"
definition r_plus :: "regex \<Rightarrow> regex" where "r_plus r = Rep True 1 None r"
definition r_opt :: "regex \<Rightarrow> regex" where "r_opt r = Rep True 0 (Some 1) r"

definition r_any :: regex where "r_any = Cls True []"
definition r_dot :: regex where "r_dot = Cls True LineTerminator"
definition r_ws :: regex where "r_ws = Cls False WhiteSpace"
definition r_non_ws :: regex where "r_non_ws = Cls True WhiteSpace"
definition r_word :: regex where "r_word = Cls False WordChar"
definition r_digit :: regex where "r_digit = Cls False Digit"

text \<open>
  Case-insensitive matching compares canonical forms (\<^verbatim>\<open>Canonicalize\<close>, without
  the \<^verbatim>\<open>u\<close> flag: the upper-case form, except that a code unit at or above 128
  never canonicalizes to one below 128). The patterns here hold ASCII only, so
  only the folding of ASCII letters can be observed.
\<close>

definition canon :: "nat \<Rightarrow> nat" where
  "canon c = (if 97 \<le> c \<and> c \<le> 122 then c - 32 else c)"

definition cls_member :: "bool \<Rightarrow> charset \<Rightarrow> nat \<Rightarrow> bool" where
  "cls_member ic rs c =
     (if ic then in_ranges rs (canon c) \<or>
                 (65 \<le> canon c \<and> canon c \<le> 90 \<and> in_ranges rs (canon c + 32))
      else in_ranges rs c)"

definition lit_at :: "bool \<Rightarrow> jsstring \<Rightarrow> jsstring \<Rightarrow> nat \<Rightarrow> bool" where
  "lit_at ic w s i =
     (i + length w \<le> length s \<and>
      (if ic then map canon (take (length w) (drop i s)) = map canon w
       else take (length w) (drop i s) = w))"

text \<open>
  The matcher returns, for a start position, the end positions of all matches
  in the order a backtracking matcher tries them (\<^verbatim>\<open>RepeatMatcher\<close>: a greedy
  quantifier tries one more iteration first, a lazy one tries to stop first; an
  iteration beyond \<open>min\<close> that consumes nothing is rejected). The fuel of
  \<open>rep_ends\<close> bounds the iterations: each one either lowers \<open>min\<close> or moves
  forward in the string.
\<close>

fun rep_ends :: "(nat \<Rightarrow> nat list) \<Rightarrow> bool \<Rightarrow> nat \<Rightarrow> nat option \<Rightarrow> nat \<Rightarrow> nat \<Rightarrow> nat list" where
  "rep_ends f g mn mx 0 i = []"
| "rep_ends f g mn mx (Suc n) i =
     (if mx = Some 0 then [i]
      else
        let more = concat (map (\<lambda>j. if mn = 0 \<and> j = i then []
                                      else rep_ends f g (mn - 1) (map_option (\<lambda>m. m - 1) mx) n j)
                               (f i))
        in if mn \<noteq> 0 then more
           else if g then more @ [i]
           else i # more)"

primrec ends :: "regex \<Rightarrow> bool \<Rightarrow> bool \<Rightarrow> jsstring \<Rightarrow> nat \<Rightarrow> nat list" where
  "ends Eps ic ml s i = [i]"
| "ends (Cls neg rs) ic ml s i =
     (if i < length s \<and> (cls_member ic rs (s ! i) \<noteq> neg) then [Suc i] else [])"
| "ends (Lit w) ic ml s i = (if lit_at ic w s i then [i + length w] else [])"
| "ends (Seq a b) ic ml s i = concat (map (ends b ic ml s) (ends a ic ml s i))"
| "ends (Alt a b) ic ml s i = ends a ic ml s i @ ends b ic ml s i"
| "ends (Rep g mn mx r) ic ml s i =
     rep_ends (ends r ic ml s) g mn mx (Suc (mn + length s)) i"
| "ends Bol ic ml s i =
     (if i = 0 \<or> (ml \<and> i \<le> length s \<and> isLineTerminator (s ! (i - 1))) then [i] else [])"
| "ends Eol ic ml s i =
     (if i = length s \<or> (ml \<and> i < length s \<and> isLineTerminator (s ! i)) then [i] else [])"
| "ends WordB ic ml s i =
     (if (0 < i \<and> i \<le> length s \<and> isWordChar (s ! (i - 1))) \<noteq>
         (i < length s \<and> isWordChar (s ! i))
      then [i] else [])"
| "ends (NotAhead r) ic ml s i = (if ends r ic ml s i = [] then [i] else [])"

text \<open>
  A \<^verbatim>\<open>RegExp\<close> object: its pattern, its flags and its one piece of mutable
  state, \<^verbatim>\<open>lastIndex\<close>. \<^verbatim>\<open>RegExp.prototype.test\<close> (\<^verbatim>\<open>RegExpBuiltinExec\<close>)
  starts at \<^verbatim>\<open>lastIndex\<close> and stores the end of the match there when the
  \<^verbatim>\<open>g\<close> flag is set; without it the search starts at 0 and \<^verbatim>\<open>lastIndex\<close> is
  left alone.
\<close>

record regexp =
  source :: regex
  ignoreCase :: bool
  multiline :: bool
  global :: bool

definition match_at :: "regexp \<Rightarrow> jsstring \<Rightarrow> nat \<Rightarrow> nat list" where
  "match_at re s i = ends (source re) (ignoreCase re) (multiline re) s i"

definition first_match :: "regexp \<Rightarrow> jsstring \<Rightarrow> nat \<Rightarrow> nat option" where
  "first_match re s start =
     (case find (\<lambda>p. match_at re s p \<noteq> []) [start..<Suc (length s)] of
        None \<Rightarrow> None
      | Some p \<Rightarrow> Some (hd (match_at re s p)))"

definition RegExp_test :: "regexp \<Rightarrow> jsstring \<Rightarrow> nat \<Rightarrow> bool \<times> nat" where
  "RegExp_test re s lastIndex =
     (if global re then
        (case first_match re s lastIndex of
           None \<Rightarrow> (False, 0)
         | Some e \<Rightarrow> (True, e))
      else (first_match re s 0 \<noteq> None, lastIndex))"

text \<open>A pattern literal inside a function is a fresh object at every evaluation.\<close>

definition re :: "regex \<Rightarrow> regexp" where
  "re r = \<lparr>source = r, ignoreCase = False, multiline = False, global = False\<rparr>"

definition re_m :: "regex \<Rightarrow> regexp" where
  "re_m r = \<lparr>source = r, ignoreCase = False, multiline = True, global = False\<rparr>"

definition re_i :: "regex \<Rightarrow> regexp" where
  "re_i r = \<lparr>source = r, ignoreCase = True, multiline = False, global = False\<rparr>"

definition test :: "regexp \<Rightarrow> jsstring \<Rightarrow> bool" where
  "test r s = fst (RegExp_test r s 0)"


definition r_code :: "nat \<Rightarrow> regex" where
  "r_code c = Cls False [(c, c)]"

definition lit :: "string \<Rightarrow> regex" where
  "lit cs = Lit (str cs)"

text \<open>\<^verbatim>\<open>/(.)\1{4,}/\<close>: five equal code units in a row, none a line terminator.\<close>

definition has_run5 :: "jsstring \<Rightarrow> bool" where
  "has_run5 l =
     list_ex (\<lambda>i. \<not> isLineTerminator (l ! i) \<and> list_all (\<lambda>k. l ! (i + k) = l ! i) [1..<5])
       [0..<length l - 4]"

section \<open>Module-level data of \<^verbatim>\<open>src/index.js\<close>\<close>

definition BOX_DRAWING_RE :: regexp where
  "BOX_DRAWING_RE = re (Cls False [(0x2500, 0x257F)])"

definition BLOCK_ELEMS_RE :: regexp where
  "BLOCK_ELEMS_RE = re (Cls False [(0x2580, 0x259F)])"

definition BRAILLE_RE :: regexp where
  "BRAILLE_RE = re (Cls False [(0x2800, 0x28FF)])"

definition GEOM_RE :: regexp where
  "GEOM_RE = re (Cls False [(0x25A0, 0x25FF)])"

definition ANSI_RE :: regexp where
  "ANSI_RE = re (seqs [Lit [0x1B, of_char CHR ''[''], r_star (Cls False ((48, 57) # chars '';'')),
                       lit ''m''])"

text \<open>The two character sets; \<open>CHR 0x5C\<close> is the backslash, \<open>CHR 0x27\<close> and
  \<open>CHR 0x22\<close> the two quotes.\<close>

definition BORDER_CHARS :: charset where
  "BORDER_CHARS = chars (''+|-_=/#'' @ [CHR 0x5C] @ ''*<>'')"

definition LINE_SYMBOL_CHARS :: charset where
  "LINE_SYMBOL_CHARS =
     chars (''`~!@#$%^&*()-_=+[]{}|'' @ [CHR 0x5C] @ '';:'' @ [CHR 0x27, CHR 0x22] @ '',.<>/?'')"

text \<open>
  \<^verbatim>\<open>MD\<close>, the catalogue of markdown patterns, in the order of its object literal:
  \<^verbatim>\<open>Object.entries(MD)\<close> lists the entries in that order.
\<close>

definition MD_heading :: regexp where
  "MD_heading = re_m (seqs [Bol, Rep True 1 (Some 6) (r_chr CHR ''#''), r_plus r_ws, r_plus r_non_ws])"

definition MD_setext :: regexp where
  "MD_setext = re_m (seqs [Bol, r_plus r_dot, r_code 10,
                           Alt (r_plus (r_chr CHR ''='')) (r_plus (r_chr CHR ''-'')),
                           r_star r_ws, Eol])"

definition MD_list :: regexp where
  "MD_list = re_m (Seq Bol
     (Alt (seqs [Rep True 0 (Some 3) r_ws, Cls False (chars ''-*+''), r_plus r_ws])
          (seqs [Rep True 0 (Some 3) r_ws, r_plus r_digit, r_chr CHR ''.'', r_plus r_ws])))"

definition MD_blockquote :: regexp where
  "MD_blockquote = re_m (seqs [Bol, r_chr CHR ''>'', r_plus r_ws])"

definition fenced_pattern :: regex where
  "fenced_pattern =
     Alt (seqs [lit ''```'', r_lazy_star r_any, lit ''```''])
         (seqs [lit ''~~~'', r_lazy_star r_any, lit ''~~~''])"

definition MD_fenced :: regexp where
  "MD_fenced = re_m fenced_pattern"

definition MD_inlineCode :: regexp where
  "MD_inlineCode = re_m (seqs [Alt Bol (Cls True (chars ''`'')), r_chr CHR ''`'',
                               r_plus (Cls True (chars ''`'')), r_chr CHR ''`''])"

definition MD_link :: regexp where
  "MD_link = re_m (seqs [r_chr CHR ''['', r_plus (Cls True (chars '']'')), r_chr CHR '']'',
                         r_chr CHR ''('', r_plus (Cls True (chars '')'')), r_chr CHR '')''])"

definition MD_image :: regexp where
  "MD_image = re_m (seqs [r_chr CHR ''!'', r_chr CHR ''['', r_star (Cls True (chars '']'')),
                          r_chr CHR '']'', r_chr CHR ''('', r_plus (Cls True (chars '')'')),
                          r_chr CHR '')''])"

definition MD_tableRow :: regexp where
  "MD_tableRow = re_m (seqs [Bol, r_opt (r_chr CHR ''|''), r_plus (Cls True (chars ''|'' @ [(10, 10)])),
                             r_chr CHR ''|'', r_plus (Cls True (chars ''|'' @ [(10, 10)]))])"

definition MD_hr :: regexp where
  "MD_hr = re_m (alts
     [seqs [Bol, Rep True 3 None (Seq (r_chr CHR ''-'') (r_opt r_ws)), Eol],
      seqs [Bol, Rep True 3 None (Seq (r_chr CHR ''*'') (r_opt r_ws)), Eol],
      seqs [Bol, Rep True 3 None (Seq (r_chr CHR ''_'') (r_opt r_ws)), Eol]])"

definition MD_emphasis :: regexp where
  "MD_emphasis = re_m (seqs [Alt Bol (Cls True (WordChar @ chars ''*'')),
                             Rep True 1 (Some 2) (r_chr CHR ''*''),
                             r_plus (Cls True (chars ''*'' @ [(10, 10)])),
                             Rep True 1 (Some 2) (r_chr CHR ''*''),
                             NotAhead (r_chr CHR ''*'')])"

definition MD_html :: regexp where
  "MD_html = re_i (seqs [r_chr CHR ''<'', r_opt (r_chr CHR ''/''),
       alts [lit ''div'', lit ''span'', lit ''br'', lit ''img'', lit ''a'', lit ''p'',
             Seq (lit ''h'') (Cls False [(of_char CHR ''1'', of_char CHR ''6'')]),
             lit ''ul'', lit ''ol'', lit ''li'', lit ''code'', lit ''pre''],
       r_star (Cls True (chars ''>'')), r_chr CHR ''>''])"

definition MD_frontMatter :: regexp where
  "MD_frontMatter = re_m (seqs [Bol, lit ''---'', r_code 10, r_lazy_star r_any,
                                r_code 10, lit ''---'', r_code 10])"

definition MD :: "(string \<times> regexp) list" where
  "MD = [(''heading'', MD_heading),
         (''setext'', MD_setext),
         (''list'', MD_list),
         (''blockquote'', MD_blockquote),
         (''fenced'', MD_fenced),
         (''inlineCode'', MD_inlineCode),
         (''link'', MD_link),
         (''image'', MD_image),
         (''tableRow'', MD_tableRow),
         (''hr'', MD_hr),
         (''emphasis'', MD_emphasis),
         (''html'', MD_html),
         (''frontMatter'', MD_frontMatter)]"

text \<open>
  The only mutable state a call can reach is the \<^verbatim>\<open>lastIndex\<close> of the
  module-level \<^verbatim>\<open>RegExp\<close> objects, which live across calls. The heap holds
  one \<^verbatim>\<open>lastIndex\<close> for each of them.
\<close>

datatype obj = Obj_BOX_DRAWING_RE | Obj_BLOCK_ELEMS_RE | Obj_BRAILLE_RE | Obj_GEOM_RE
  | Obj_ANSI_RE | Obj_MD string

type_synonym heap = "obj \<Rightarrow> nat"

definition obj_test :: "obj \<Rightarrow> regexp \<Rightarrow> jsstring \<Rightarrow> heap \<Rightarrow> bool \<times> heap" where
  "obj_test k r s h = (case RegExp_test r s (h k) of (b, li) \<Rightarrow> (b, h(k := li)))"

text \<open>When the module is loaded every \<^verbatim>\<open>lastIndex\<close> is 0.\<close>

definition initial_heap :: heap where
  "initial_heap = (\<lambda>_. 0)"

text \<open>\<^verbatim>\<open>p || q\<close> on two tests: the second runs only when the first fails.\<close>

definition or_else :: "(heap \<Rightarrow> bool \<times> heap) \<Rightarrow> (heap \<Rightarrow> bool \<times> heap) \<Rightarrow> heap \<Rightarrow> bool \<times> heap" where
  "or_else p q h = (case p h of (b, h1) \<Rightarrow> if b then (True, h1) else q h1)"

section \<open>Numbers\<close>

text \<open>
  The scores are JavaScript numbers. They are modelled as exact reals: every
  weight and threshold is the decimal fraction the source writes, and sums,
  quotients and the square root are exact. \<open>or0\<close> is \<^verbatim>\<open>x || 0\<close> on a number
  that is not NaN; \<open>toFixed3\<close> is \<^verbatim>\<open>Number(x.toFixed(3))\<close> for \<open>0 \<le> x\<close>: the
  nearest multiple of 0.001, the larger one on a tie.
\<close>

definition or0 :: "real \<Rightarrow> real" where
  "or0 x = (if x = 0 then 0 else x)"

definition toFixed3 :: "real \<Rightarrow> real" where
  "toFixed3 x = of_int \<lfloor>x * 1000 + 1 / 2\<rfloor> / 1000"

section \<open>\<^verbatim>\<open>asciiArtScore\<close>\<close>

record stats =
  lines :: nat
  mean :: real
  std :: real
  symD :: real
  alpha :: real

record ascii_result =
  a_score :: real
  a_reasons :: "string list"
  a_stats :: "stats option"

record counters =
  total :: nat
  alnum :: nat
  sym :: nat
  borders :: nat
  runs :: nat
  trailing :: nat
  wide :: nat

text \<open>
  The body of \<^verbatim>\<open>for (const ch of line)\<close>. The loop walks code points, this
  one code units: a surrogate pair is neither alphanumeric nor in
  \<^verbatim>\<open>LINE_SYMBOL_CHARS\<close>, so both count the same.
\<close>

definition char_step :: "nat \<Rightarrow> counters \<Rightarrow> counters" where
  "char_step ch c =
     (let c1 = (if test (re (Cls False [(65, 90), (97, 122), (48, 57)])) [ch]
                then c\<lparr>alnum := alnum c + 1\<rparr> else c)
      in if in_ranges LINE_SYMBOL_CHARS ch then c1\<lparr>sym := sym c1 + 1\<rparr> else c1)"

text \<open>The condition under which the loop body runs \<^verbatim>\<open>borders++\<close>.\<close>

definition border_like :: "jsstring \<Rightarrow> bool" where
  "border_like line =
     (let t = trim line in
      3 \<le> length t \<and>
      (let allSame = list_all (\<lambda>c. c = t ! 0) t;
           mostlyBorder =
             (0.8 \<le> real (length (filter (in_ranges BORDER_CHARS) t)) / real (length t))
       in in_ranges BORDER_CHARS (t ! 0) \<and> in_ranges BORDER_CHARS (last t) \<and>
          (mostlyBorder \<or> allSame)))"

text \<open>The body of \<^verbatim>\<open>for (const line of lines)\<close>.\<close>

definition line_step :: "jsstring \<Rightarrow> counters \<Rightarrow> counters" where
  "line_step line c =
     (let c1 = c\<lparr>total := total c + length line\<rparr>;
          c2 = (if 20 \<le> length line then c1\<lparr>wide := wide c1 + 1\<rparr> else c1);
          c3 = fold char_step line c2;
          t = trim line;
          c4 = (if border_like line then c3\<lparr>borders := borders c3 + 1\<rparr> else c3);
          c5 = (if has_run5 line then c4\<lparr>runs := runs c4 + 1\<rparr> else c4)
      in if test (re (Seq (r_plus r_ws) Eol)) line \<and> length t \<noteq> 0
         then c5\<lparr>trailing := trailing c5 + 1\<rparr> else c5)"

definition hasUnicodeArt_test :: "jsstring \<Rightarrow> heap \<Rightarrow> bool \<times> heap" where
  "hasUnicodeArt_test raw =
     or_else (obj_test Obj_BOX_DRAWING_RE BOX_DRAWING_RE raw)
    (or_else (obj_test Obj_BLOCK_ELEMS_RE BLOCK_ELEMS_RE raw)
    (or_else (obj_test Obj_BRAILLE_RE BRAILLE_RE raw)
             (obj_test Obj_GEOM_RE GEOM_RE raw)))"

text \<open>\<^verbatim>\<open>if (cond) { score += w; reasons.push(tag); }\<close>\<close>

definition bump :: "bool \<Rightarrow> real \<Rightarrow> string \<Rightarrow> real \<times> string list \<Rightarrow> real \<times> string list" where
  "bump cond w tag acc = (if cond then (fst acc + w, snd acc @ [tag]) else acc)"

definition asciiArtScore :: "jsstring \<Rightarrow> heap \<Rightarrow> ascii_result \<times> heap" where
  "asciiArtScore text h =
     (let raw = normalize_newlines text;
          lns = split_lf raw
      in if length lns < 3
         then (\<lparr>a_score = 0, a_reasons = [''too_few_lines''], a_stats = None\<rparr>, h)
         else
           let lengths = map length lns;
               mean = or0 (real (foldl (+) 0 lengths) / real (length lengths));
               std = or0 (sqrt (foldl (\<lambda>a l. a + (real l - mean)\<^sup>2) 0 lengths /
                                real (if length lengths = 0 then 1 else length lengths)));
               c = fold line_step lns
                     \<lparr>total = 0, alnum = 0, sym = 0, borders = 0, runs = 0, trailing = 0, wide = 0\<rparr>;
               symD = (if total c \<noteq> 0 then real (sym c) / real (total c) else 0);
               alpha = (if total c \<noteq> 0 then real (alnum c) / real (total c) else 0)
           in case hasUnicodeArt_test raw h of (hasUnicodeArt, h1) \<Rightarrow>
              case obj_test Obj_ANSI_RE ANSI_RE raw h1 of (hasAnsi, h2) \<Rightarrow>
              let n = real (length lns);
                  acc1 = bump (0.7 \<le> real (wide c) / n) 0.15 ''many_wide_lines'' (0, []);
                  acc2 = bump (20 \<le> mean \<and> std / max 1 mean \<le> 0.22) 0.2 ''consistent_width'' acc1;
                  acc3 = bump (0.18 \<le> symD \<and> alpha \<le> 0.55) 0.2 ''symbol_heavy_low_alpha'' acc2;
                  acc4 = bump (max 2 (of_int \<lfloor>n * 0.05\<rfloor>) \<le> real (runs c)) 0.15
                           ''long_same_char_runs'' acc3;
                  acc5 = bump (0.08 \<le> real (borders c) / n) 0.1 ''border_like_lines'' acc4;
                  acc6 = bump (0.1 \<le> real (trailing c) / n) 0.07 ''trailing_spaces'' acc5;
                  acc7 = bump hasAnsi 0.12 ''ansi_sequences'' acc6;
                  acc8 = bump hasUnicodeArt 0.28 ''unicode_art_chars'' acc7;
                  acc = bump (0.75 < alpha) (- 0.1) ''very_text_heavy'' acc8;
                  score = max 0 (min 1 (fst acc))
              in (\<lparr>a_score = score, a_reasons = snd acc,
                   a_stats = Some \<lparr>lines = length lns, mean = mean, std = std,
                                   symD = symD, alpha = alpha\<rparr>\<rparr>, h2))"

section \<open>\<^verbatim>\<open>markdownScore\<close>\<close>

record md_result =
  m_score :: real
  m_reasons :: "string list"

text \<open>The \<^verbatim>\<open>if / else if\<close> chain on the feature's name.\<close>

definition md_weight :: "string \<Rightarrow> real" where
  "md_weight name =
     (if name = ''fenced'' \<or> name = ''heading'' \<or> name = ''list'' \<or> name = ''link'' \<or>
         name = ''tableRow'' then 0.18
      else if name = ''image'' \<or> name = ''blockquote'' \<or> name = ''setext'' \<or>
              name = ''frontMatter'' then 0.12
      else if name = ''inlineCode'' \<or> name = ''hr'' \<or> name = ''emphasis'' then 0.08
      else if name = ''html'' then 0.05
      else 0)"

text \<open>\<^verbatim>\<open>for (const [name, re] of features)\<close>, with \<open>hits\<close> and \<open>score\<close> carried along.\<close>

fun md_loop :: "(string \<times> regexp) list \<Rightarrow> jsstring \<Rightarrow> string list \<times> real \<Rightarrow> heap \<Rightarrow>
    (string list \<times> real) \<times> heap" where
  "md_loop [] raw acc h = (acc, h)"
| "md_loop ((name, rx) # features) raw acc h =
     (case obj_test (Obj_MD name) rx raw h of (b, h1) \<Rightarrow>
        md_loop features raw
          (if b then (fst acc @ [name], snd acc + md_weight name) else acc) h1)"

definition markdownScore :: "jsstring \<Rightarrow> heap \<Rightarrow> md_result \<times> heap" where
  "markdownScore text h =
     (let raw = normalize_newlines text;
          features = MD
      in case md_loop features raw ([], 0) h of ((hits, score0), h1) \<Rightarrow>
         let longLines = length (filter (\<lambda>l. 140 < length l) (split_lf raw));
             score1 = (if 2 \<le> longLines then score0 - 0.1 else score0)
         in case or_else (obj_test Obj_BOX_DRAWING_RE BOX_DRAWING_RE raw)
                (or_else (obj_test Obj_BLOCK_ELEMS_RE BLOCK_ELEMS_RE raw)
                         (obj_test Obj_BRAILLE_RE BRAILLE_RE raw)) h1 of (art, h2) \<Rightarrow>
            let score2 = (if art then score1 - 0.12 else score1);
                score = max 0 (min 1 score2)
            in (\<lparr>m_score = score, m_reasons = hits\<rparr>, h2))"

section \<open>\<^verbatim>\<open>codeLikePenalty\<close>\<close>

definition codeHints :: "regexp list" where
  "codeHints =
     [re (Seq Bol (Alt (Rep True 2 None r_ws) (r_code 9))),
      re (seqs [r_chr CHR '';'', r_star r_ws, Eol]),
      re (seqs [WordB,
                alts [lit ''function'', lit ''class'', lit ''import'', lit ''export'', lit ''const'',
                      lit ''let'', lit ''var'', lit ''def'', lit ''if'', lit ''for'', lit ''while''],
                WordB]),
      re (Cls False (chars ''{}`'')),
      re (Alt (Seq WordB (lit ''Exception:''))
              (seqs [WordB, lit ''at'', r_plus r_ws, r_plus (Cls False (WordChar @ chars ''.'')),
                     lit '' ('', r_plus (Cls False (WordChar @ chars ''/.:-'')),
                     r_chr CHR '')'']))]"

definition codeLikePenalty :: "jsstring \<Rightarrow> real" where
  "codeLikePenalty text =
     (let lns = split_crlf text;
          hits = foldl (\<lambda>acc l. acc + (if list_ex (\<lambda>r. test r l) codeHints then 1 else 0))
                   (0::nat) lns
      in if max 3 (of_int \<lfloor>real (length lns) * 0.08\<rfloor>) \<le> real hits then 0.15 else 0)"

section \<open>\<^verbatim>\<open>detectTextFormat\<close>\<close>

text \<open>
  The argument is any JavaScript value; only whether it is a string matters.
  In the result, the nested \<^verbatim>\<open>reasons\<close> object is flattened, and a property
  that the returned object does not have, or has with the value
  \<^verbatim>\<open>undefined\<close>, is \<open>None\<close>.
\<close>

datatype jsvalue = JSString jsstring | NotAString

record detection =
  text_format :: string
  asciiArt :: real
  markdown :: real
  reasons_ascii :: "string list"
  reasons_markdown :: "string list"
  codePenaltyApplied :: "bool option"
  result_stats :: "stats option"

definition xml_re :: regexp where
  "xml_re = re_i (seqs [Bol, r_star r_ws, lit ''<?xml''])"

definition html_re :: regexp where
  "html_re = re (seqs [Bol, r_star r_ws, r_chr CHR ''<'', r_plus (Cls True (chars ''>'')),
                       r_chr CHR ''>''])"

definition json_re :: regexp where
  "json_re = re_m (seqs [Bol, r_star r_ws, Cls False (chars ''{[''), r_star r_any,
                         Cls False (chars '']}''), r_star r_ws, Eol])"

definition asciiFinal_of :: "ascii_result \<Rightarrow> real \<Rightarrow> real" where
  "asciiFinal_of a codePenalty = max 0 (a_score a - codePenalty)"

definition classify :: "jsstring \<Rightarrow> real \<Rightarrow> real \<Rightarrow> string" where
  "classify text asciiFinal mdFinal =
     (let ASCII_TH = 0.35; MD_TH = 0.08 in
      if test (re_m fenced_pattern) text then ''code''
      else if test xml_re text then ''xml''
      else if test html_re text then ''html''
      else if test json_re text then ''json''
      else if ASCII_TH \<le> asciiFinal \<and> mdFinal + 0.1 < asciiFinal then ''ascii''
      else if MD_TH \<le> mdFinal \<and> asciiFinal \<le> mdFinal then ''markdown''
      else ''plain'')"

fun detectTextFormat :: "jsvalue \<Rightarrow> heap \<Rightarrow> detection \<times> heap" where
  "detectTextFormat NotAString h =
     (\<lparr>text_format = ''plain'', asciiArt = 0, markdown = 0, reasons_ascii = [''empty''],
       reasons_markdown = [], codePenaltyApplied = None, result_stats = None\<rparr>, h)"
| "detectTextFormat (JSString text) h =
     (if trim text = [] then
        (\<lparr>text_format = ''plain'', asciiArt = 0, markdown = 0, reasons_ascii = [''empty''],
          reasons_markdown = [], codePenaltyApplied = None, result_stats = None\<rparr>, h)
      else
        case asciiArtScore text h of (a, h1) \<Rightarrow>
        case markdownScore text h1 of (m, h2) \<Rightarrow>
        let codePenalty = codeLikePenalty text;
            asciiFinal = asciiFinal_of a codePenalty;
            mdFinal = m_score m
        in (\<lparr>text_format = classify text asciiFinal mdFinal,
             asciiArt = toFixed3 asciiFinal,
             markdown = toFixed3 mdFinal,
             reasons_ascii = a_reasons a,
             reasons_markdown = m_reasons m,
             codePenaltyApplied = Some (0 < codePenalty),
             result_stats = a_stats a\<rparr>, h2))"

section \<open>The shape the JSON test accepts\<close>

text \<open>
  \<open>ws_run s i j\<close>: the code units of \<open>s\<close> from \<open>i\<close> up to, not including, \<open>j\<close>
  are all white space. \<open>json_wrapped s\<close>: at some line start \<open>p\<close> (the start of
  the text, or just after a line terminator), after white space only, stands an
  opening bracket at \<open>i\<close>; some later position \<open>j\<close> holds a closing bracket, of
  either kind; and from there only white space follows up to a position \<open>e\<close>
  that is the end of the text or holds a line terminator.
\<close>

definition ws_run :: "jsstring \<Rightarrow> nat \<Rightarrow> nat \<Rightarrow> bool" where
  "ws_run s i j \<longleftrightarrow> (\<forall>k. i \<le> k \<and> k < j \<longrightarrow> isWhiteSpace (s ! k))"

definition json_wrapped :: "jsstring \<Rightarrow> bool" where
  "json_wrapped s \<longleftrightarrow>
     (\<exists>p i j e. (p = 0 \<or> isLineTerminator (s ! (p - 1))) \<and>
        p \<le> i \<and> ws_run s p i \<and>
        i < j \<and> (s ! i = of_char CHR ''{'' \<or> s ! i = of_char CHR ''['') \<and>
        j < e \<and> (s ! j = of_char CHR '']'' \<or> s ! j = of_char CHR ''}'') \<and>
        e \<le> length s \<and> ws_run s (Suc j) e \<and>
        (e = length s \<or> isLineTerminator (s ! e)))"

section \<open>Features by name, and the specification's wording\<close>

text \<open>
  \<open>md_feature_matches name raw\<close>: the pattern that \<^verbatim>\<open>MD\<close> holds under
  \<open>name\<close> matches \<open>raw\<close>. \<open>matched_features raw names\<close>: those of \<open>names\<close>,
  in their order, whose pattern matches.
\<close>

definition md_feature_matches :: "string \<Rightarrow> jsstring \<Rightarrow> bool" where
  "md_feature_matches name raw = (case map_of MD name of None \<Rightarrow> False | Some rx \<Rightarrow> test rx raw)"

definition matched_features :: "jsstring \<Rightarrow> string list \<Rightarrow> string list" where
  "matched_features raw names = filter (\<lambda>name. md_feature_matches name raw) names"

text \<open>
  Following the specification's words, not the source: the order in which the
  specification lists the markdown features (by weight), and its reading of a
  border-like line, in which a line of identical characters counts whatever the
  characters are.
\<close>

definition claimed_reason_order :: "string list" where
  "claimed_reason_order =
     [''heading'', ''list'', ''link'', ''tableRow'', ''fenced'',
      ''image'', ''blockquote'', ''setext'', ''frontMatter'',
      ''inlineCode'', ''hr'', ''emphasis'',
      ''html'']"

definition border_like_claimed :: "jsstring \<Rightarrow> bool" where
  "border_like_claimed line =
     (let t = trim line in
      3 \<le> length t \<and>
      (list_all (\<lambda>c. c = t ! 0) t \<or>
       (0.8 \<le> real (length (filter (in_ranges BORDER_CHARS) t)) / real (length t) \<and>
        in_ranges BORDER_CHARS (t ! 0) \<and> in_ranges BORDER_CHARS (last t))))"

section \<open>An example input\<close>


section \<open>Abbreviations used in the proofs\<close>

text \<open>The outcome of the four Unicode tests, and the catalogue entries that match.\<close>

definition hasUnicodeArt :: "jsstring \<Rightarrow> bool" where
  "hasUnicodeArt raw = (test BOX_DRAWING_RE raw \<or> test BLOCK_ELEMS_RE raw \<or> test BRAILLE_RE raw \<or> test GEOM_RE raw)"

definition md_matches :: "jsstring \<Rightarrow> (string \<times> regexp) list" where
  "md_matches raw = filter (\<lambda>e. test (snd e) raw) MD"

section \<open>No pattern is global: the tests leave the heap alone\<close>

lemma RegExp_test_nonglobal: "\<not> global r \<Longrightarrow> RegExp_test r s li = (test r s, li)"
  by (simp add: RegExp_test_def test_def)

lemma obj_test_nonglobal: "\<not> global r \<Longrightarrow> obj_test k r s h = (test r s, h)"
  by (simp add: obj_test_def RegExp_test_nonglobal)

lemma global_re [simp]: "global (re r) = False" "global (re_m r) = False" "global (re_i r) = False"
  by (simp_all add: re_def re_m_def re_i_def)

lemma module_regexps_nonglobal [simp]:
  "\<not> global BOX_DRAWING_RE" "\<not> global BLOCK_ELEMS_RE" "\<not> global BRAILLE_RE"
  "\<not> global GEOM_RE" "\<not> global ANSI_RE"
  by (simp_all add: BOX_DRAWING_RE_def BLOCK_ELEMS_RE_def BRAILLE_RE_def GEOM_RE_def ANSI_RE_def)

lemma MD_nonglobal: "(name, rx) \<in> set MD \<Longrightarrow> \<not> global rx"
  by (auto simp: MD_def MD_heading_def MD_setext_def MD_list_def MD_blockquote_def MD_fenced_def
      MD_inlineCode_def MD_link_def MD_image_def MD_tableRow_def MD_hr_def MD_emphasis_def
      MD_html_def MD_frontMatter_def)

lemma or_else_pure:
  "p h = (a, h) \<Longrightarrow> q h = (b, h) \<Longrightarrow> or_else p q h = (a \<or> b, h)"
  by (simp add: or_else_def)

lemma hasUnicodeArt_test_eq: "hasUnicodeArt_test raw h = (hasUnicodeArt raw, h)"
  by (simp add: hasUnicodeArt_test_def hasUnicodeArt_def or_else_pure obj_test_nonglobal)

lemma md_loop_pure:
  "(\<And>name rx. (name, rx) \<in> set fs \<Longrightarrow> \<not> global rx) \<Longrightarrow>
   md_loop fs raw acc h =
     ((fst acc @ map fst (filter (\<lambda>e. test (snd e) raw) fs),
       snd acc + sum_list (map (\<lambda>e. md_weight (fst e)) (filter (\<lambda>e. test (snd e) raw) fs))), h)"
proof (induction fs arbitrary: acc h)
  case Nil
  then show ?case by simp
next
  case (Cons e fs)
  obtain name rx where e: "e = (name, rx)" by (cases e)
  have ng: "\<not> global rx" using Cons.prems[of name rx] e by simp
  have rest: "\<And>n r. (n, r) \<in> set fs \<Longrightarrow> \<not> global r" using Cons.prems by auto
  show ?case
    by (simp add: e obj_test_nonglobal[OF ng] Cons.IH[OF rest] add.assoc)
qed

lemma asciiArtScore_heap: "snd (asciiArtScore text h) = h"
  unfolding asciiArtScore_def Let_def hasUnicodeArt_test_eq obj_test_nonglobal[OF module_regexps_nonglobal(5)]
  by (simp only: prod.case snd_conv if_distrib[of snd] if_cancel)

lemma asciiArtScore_indep: "fst (asciiArtScore text h) = fst (asciiArtScore text h')"
  unfolding asciiArtScore_def Let_def hasUnicodeArt_test_eq obj_test_nonglobal[OF module_regexps_nonglobal(5)]
  by (simp only: prod.case fst_conv if_distrib[of fst])


lemma md_tests_pure:
  "or_else (obj_test Obj_BOX_DRAWING_RE BOX_DRAWING_RE raw)
      (or_else (obj_test Obj_BLOCK_ELEMS_RE BLOCK_ELEMS_RE raw)
               (obj_test Obj_BRAILLE_RE BRAILLE_RE raw)) h =
   (test BOX_DRAWING_RE raw \<or> test BLOCK_ELEMS_RE raw \<or> test BRAILLE_RE raw, h)"
  by (simp add: or_else_pure obj_test_nonglobal)

lemma md_loop_MD:
  "md_loop MD raw ([], 0) h =
     ((map fst (md_matches raw), sum_list (map (\<lambda>e. md_weight (fst e)) (md_matches raw))), h)"
  by (simp add: md_loop_pure[OF MD_nonglobal] md_matches_def)

lemma markdownScore_heap: "snd (markdownScore text h) = h"
  unfolding markdownScore_def Let_def md_loop_MD md_tests_pure
  by (simp only: prod.case snd_conv)

lemma markdownScore_reasons:
  "m_reasons (fst (markdownScore text h)) = map fst (md_matches (normalize_newlines text))"
  unfolding markdownScore_def Let_def md_loop_MD md_tests_pure
  by (simp only: prod.case fst_conv md_result.simps)

lemma markdownScore_indep: "fst (markdownScore text h) = fst (markdownScore text h')"
  unfolding markdownScore_def Let_def md_loop_MD md_tests_pure
  by (simp only: prod.case fst_conv)

lemma markdownScore_bounds: "0 \<le> m_score (fst (markdownScore text h)) \<and> m_score (fst (markdownScore text h)) \<le> 1"
  unfolding markdownScore_def Let_def md_loop_MD md_tests_pure
  by (simp only: prod.case fst_conv md_result.simps) simp

lemma asciiArtScore_bounds: "0 \<le> a_score (fst (asciiArtScore text h)) \<and> a_score (fst (asciiArtScore text h)) \<le> 1"
  unfolding asciiArtScore_def Let_def hasUnicodeArt_test_eq obj_test_nonglobal[OF module_regexps_nonglobal(5)]
  by (simp only: prod.case fst_conv if_distrib[of fst] if_distrib[of a_score] ascii_result.simps) simp

section \<open>What the matcher computes\<close>

lemma test_iff:
  assumes "\<not> global r"
  shows "test r s \<longleftrightarrow> (\<exists>p\<le>length s. match_at r s p \<noteq> [])"
proof -
  have "test r s \<longleftrightarrow> find (\<lambda>p. match_at r s p \<noteq> []) [0..<Suc (length s)] \<noteq> None"
    using assms by (simp add: test_def RegExp_test_def first_match_def split: option.splits)
  also have "\<dots> \<longleftrightarrow> (\<exists>p. p \<in> set [0..<Suc (length s)] \<and> match_at r s p \<noteq> [])"
    by (simp only: find_None_iff not_not)
  also have "\<dots> \<longleftrightarrow> (\<exists>p\<le>length s. match_at r s p \<noteq> [])"
    by (simp only: set_upt atLeastLessThan_iff less_Suc_eq_le le0 simp_thms)
  finally show ?thesis .
qed

lemma set_ends_Seq:
  "set (ends (Seq a b) ic ml s i) = (\<Union>j\<in>set (ends a ic ml s i). set (ends b ic ml s j))"
  by simp

lemma seqs_Nil: "seqs [] = Eps"
  by (simp add: seqs_def)

lemma seqs_Cons: "seqs (r # rs) = Seq r (seqs rs)"
  by (simp add: seqs_def)

lemma lit_at_iff:
  "lit_at False w s i \<longleftrightarrow> (\<exists>pre post. s = pre @ w @ post \<and> length pre = i)"
proof
  assume "lit_at False w s i"
  then have le: "i + length w \<le> length s" and eq: "take (length w) (drop i s) = w"
    by (simp_all add: lit_at_def)
  have "s = take i s @ take (length w) (drop i s) @ drop (length w) (drop i s)"
    by (simp only: append_take_drop_id)
  with eq have "s = take i s @ w @ drop (length w) (drop i s)" by simp
  moreover have "length (take i s) = i" using le by simp
  ultimately show "\<exists>pre post. s = pre @ w @ post \<and> length pre = i" by blast
next
  assume "\<exists>pre post. s = pre @ w @ post \<and> length pre = i"
  then show "lit_at False w s i" by (auto simp: lit_at_def)
qed

lemma all_from_split:
  "i < j \<Longrightarrow> (\<forall>k. i \<le> k \<and> k < j \<longrightarrow> Q k) \<longleftrightarrow> (Q i \<and> (\<forall>k. Suc i \<le> k \<and> k < j \<longrightarrow> Q k))"
  for i j :: nat
  by (metis Suc_leD Suc_leI le_neq_implies_less le_refl)

lemma rep_cls_set:
  assumes f: "\<And>j. f j = (if j < length s \<and> P (s ! j) then [Suc j] else [])"
  shows "length s - i < fuel \<Longrightarrow> i \<le> length s \<Longrightarrow>
         set (rep_ends f g 0 None fuel i) =
           {j. i \<le> j \<and> j \<le> length s \<and> (\<forall>k. i \<le> k \<and> k < j \<longrightarrow> P (s ! k))}"
proof (induction fuel arbitrary: i)
  case 0
  then show ?case by simp
next
  case (Suc n)
  let ?R = "\<lambda>i. {j. i \<le> j \<and> j \<le> length s \<and> (\<forall>k. i \<le> k \<and> k < j \<longrightarrow> P (s ! k))}"
  show ?case
  proof (cases "i < length s \<and> P (s ! i)")
    case True
    have IH: "set (rep_ends f g 0 None n (Suc i)) = ?R (Suc i)"
    proof (rule Suc.IH)
      show "length s - Suc i < n" using True Suc.prems(1) by linarith
      show "Suc i \<le> length s" using True by simp
    qed
    have "set (rep_ends f g 0 None (Suc n) i) = insert i (set (rep_ends f g 0 None n (Suc i)))"
      using True by (auto simp: f Let_def)
    also have "\<dots> = ?R i"
    proof (rule set_eqI)
      fix j
      show "j \<in> insert i (set (rep_ends f g 0 None n (Suc i))) \<longleftrightarrow> j \<in> ?R i"
      proof (cases "i < j")
        case less: True
        then show ?thesis
          using True by (simp add: IH all_from_split[OF less] Suc_le_eq)
      next
        case False
        then show ?thesis using Suc.prems(2) by (auto simp: IH)
      qed
    qed
    finally show ?thesis .
  next
    case False
    have "set (rep_ends f g 0 None (Suc n) i) = {i}"
      using False by (auto simp: f Let_def)
    also have "\<dots> = ?R i"
    proof (rule set_eqI)
      fix j
      show "j \<in> {i} \<longleftrightarrow> j \<in> ?R i"
      proof (cases "i < j")
        case less: True
        have "\<not> (j \<le> length s \<and> (\<forall>k. i \<le> k \<and> k < j \<longrightarrow> P (s ! k)))"
          using False less by (metis le_refl less_le_trans)
        then show ?thesis using less by auto
      next
        case False
        then show ?thesis using Suc.prems(2) by auto
      qed
    qed
    finally show ?thesis .
  qed
qed

lemma set_ends_star_cls:
  "i \<le> length s \<Longrightarrow>
   set (ends (Rep g 0 None (Cls neg rs)) ic ml s i) =
     {j. i \<le> j \<and> j \<le> length s \<and> (\<forall>k. i \<le> k \<and> k < j \<longrightarrow> cls_member ic rs (s ! k) \<noteq> neg)}"
  by (simp only: ends.simps) (rule rep_cls_set, simp_all)

text \<open>
  The fuel that \<open>ends\<close> gives a quantifier is enough: every end position lies
  between the start position and the end of the string, and with any larger
  fuel \<open>rep_ends\<close> returns the same list. So no match is lost to the bound.
\<close>

lemma rep_ends_range:
  assumes f: "\<And>j e. j \<le> n \<Longrightarrow> e \<in> set (f j) \<Longrightarrow> j \<le> e \<and> e \<le> n"
  shows "i \<le> n \<Longrightarrow> e \<in> set (rep_ends f g mn mx fuel i) \<Longrightarrow> i \<le> e \<and> e \<le> n"
proof (induction fuel arbitrary: i mn mx)
  case 0
  then show ?case by simp
next
  case (Suc k)
  show ?case
  proof (cases "e = i")
    case True
    then show ?thesis using Suc.prems(1) by simp
  next
    case False
    then obtain j where j: "j \<in> set (f i)"
        and e: "e \<in> set (rep_ends f g (mn - 1) (map_option (\<lambda>m. m - 1) mx) k j)"
      using Suc.prems(2) by (auto simp: Let_def split: if_splits)
    have ij: "i \<le> j \<and> j \<le> n" using f[OF Suc.prems(1) j] .
    then have "j \<le> e \<and> e \<le> n" using Suc.IH[of j] e by blast
    with ij show ?thesis by simp
  qed
qed

lemma ends_range:
  "i \<le> length s \<Longrightarrow> e \<in> set (ends r ic ml s i) \<Longrightarrow> i \<le> e \<and> e \<le> length s"
proof (induction r arbitrary: i e)
  case (Lit w)
  then show ?case by (auto simp: lit_at_def split: if_splits)
next
  case (Seq a b)
  from Seq.prems(2) obtain j where j: "j \<in> set (ends a ic ml s i)" and e: "e \<in> set (ends b ic ml s j)"
    by auto
  have "i \<le> j \<and> j \<le> length s" using Seq.IH(1)[OF Seq.prems(1) j] .
  moreover from this have "j \<le> e \<and> e \<le> length s" using Seq.IH(2)[of j e] e by blast
  ultimately show ?case by simp
next
  case (Rep g mn mx r)
  have "e \<in> set (rep_ends (ends r ic ml s) g mn mx (Suc (mn + length s)) i)"
    using Rep.prems(2) by simp
  then show ?case
    using rep_ends_range[of "length s" "ends r ic ml s" i e g mn mx] Rep.IH Rep.prems(1) by blast
next
  case (Alt a b)
  from Alt.prems(2) have "e \<in> set (ends a ic ml s i) \<or> e \<in> set (ends b ic ml s i)"
    by simp
  then show ?case
    using Alt.IH(1)[OF Alt.prems(1)] Alt.IH(2)[OF Alt.prems(1)] by blast
next
  case (NotAhead r)
  from NotAhead.prems show ?case by (simp split: if_splits)
qed (simp_all split: if_splits)

lemma rep_ends_fuel:
  assumes f: "\<And>j e. j \<le> n \<Longrightarrow> e \<in> set (f j) \<Longrightarrow> j \<le> e \<and> e \<le> n"
  shows "mn + (n - i) < k \<Longrightarrow> mn + (n - i) < k' \<Longrightarrow> i \<le> n \<Longrightarrow>
         rep_ends f g mn mx k i = rep_ends f g mn mx k' i"
proof (induction k arbitrary: k' i mn mx)
  case 0
  then show ?case by simp
next
  case (Suc k)
  from Suc.prems(2) obtain k'' where k': "k' = Suc k''" by (cases k') auto
  have step: "(if mn = 0 \<and> j = i then [] else rep_ends f g (mn - 1) (map_option (\<lambda>m. m - 1) mx) k j) =
              (if mn = 0 \<and> j = i then [] else rep_ends f g (mn - 1) (map_option (\<lambda>m. m - 1) mx) k'' j)"
    if j: "j \<in> set (f i)" for j
  proof (cases "mn = 0 \<and> j = i")
    case True
    then show ?thesis by simp
  next
    case False
    have ij: "i \<le> j \<and> j \<le> n" using f[OF Suc.prems(3) j] .
    have less: "mn - 1 + (n - j) < mn + (n - i)"
      using False ij Suc.prems(3) by (cases "mn = 0") auto
    have "rep_ends f g (mn - 1) (map_option (\<lambda>m. m - 1) mx) k j =
          rep_ends f g (mn - 1) (map_option (\<lambda>m. m - 1) mx) k'' j"
    proof (rule Suc.IH)
      show "mn - 1 + (n - j) < k" using less Suc.prems(1) by linarith
      show "mn - 1 + (n - j) < k''" using less Suc.prems(2) k' by linarith
      show "j \<le> n" using ij by simp
    qed
    then show ?thesis by simp
  qed
  have "map (\<lambda>j. if mn = 0 \<and> j = i then [] else rep_ends f g (mn - 1) (map_option (\<lambda>m. m - 1) mx) k j) (f i) =
        map (\<lambda>j. if mn = 0 \<and> j = i then [] else rep_ends f g (mn - 1) (map_option (\<lambda>m. m - 1) mx) k'' j) (f i)"
    by (rule map_cong[OF refl]) (rule step)
  then show ?case unfolding k' by (simp only: rep_ends.simps)
qed

lemma ends_fuel_adequate:
  assumes "i \<le> length s" and "Suc (mn + length s) \<le> k"
  shows "rep_ends (ends r ic ml s) g mn mx k i = ends (Rep g mn mx r) ic ml s i"
proof -
  have "rep_ends (ends r ic ml s) g mn mx k i =
        rep_ends (ends r ic ml s) g mn mx (Suc (mn + length s)) i"
  proof (rule rep_ends_fuel[where n = "length s"])
    show "\<And>j e. j \<le> length s \<Longrightarrow> e \<in> set (ends r ic ml s j) \<Longrightarrow> j \<le> e \<and> e \<le> length s"
      by (rule ends_range)
    show "mn + (length s - i) < k" using assms by linarith
    show "mn + (length s - i) < Suc (mn + length s)" by linarith
    show "i \<le> length s" by (rule assms(1))
  qed
  then show ?thesis by simp
qed

section \<open>The classifier\<close>

lemma trim_eq_Nil_iff: "trim s = [] \<longleftrightarrow> (\<forall>c\<in>set s. isWhiteSpace c)"
proof -
  let ?d = "dropWhile isWhiteSpace s"
  have "trim s = [] \<longleftrightarrow> (\<forall>c\<in>set ?d. isWhiteSpace c)"
    by (simp add: trim_def dropWhile_eq_Nil_conv)
  also have "\<dots> \<longleftrightarrow> ?d = []"
  proof
    assume all: "\<forall>c\<in>set ?d. isWhiteSpace c"
    show "?d = []"
    proof (rule ccontr)
      assume ne: "?d \<noteq> []"
      then have "\<not> isWhiteSpace (hd ?d)" by (rule hd_dropWhile)
      moreover have "hd ?d \<in> set ?d" using ne by simp
      ultimately show False using all by blast
    qed
  next
    assume "?d = []"
    then show "\<forall>c\<in>set ?d. isWhiteSpace c" by (auto dest: set_dropWhileD)
  qed
  also have "\<dots> \<longleftrightarrow> (\<forall>c\<in>set s. isWhiteSpace c)"
    by (simp add: dropWhile_eq_Nil_conv)
  finally show ?thesis .
qed

lemma detect_string:
  "trim text \<noteq> [] \<Longrightarrow>
   detectTextFormat (JSString text) h =
     (\<lparr>text_format = classify text (asciiFinal_of (fst (asciiArtScore text h)) (codeLikePenalty text))
                        (m_score (fst (markdownScore text h))),
       asciiArt = toFixed3 (asciiFinal_of (fst (asciiArtScore text h)) (codeLikePenalty text)),
       markdown = toFixed3 (m_score (fst (markdownScore text h))),
       reasons_ascii = a_reasons (fst (asciiArtScore text h)),
       reasons_markdown = m_reasons (fst (markdownScore text h)),
       codePenaltyApplied = Some (0 < codeLikePenalty text),
       result_stats = a_stats (fst (asciiArtScore text h))\<rparr>, h)"
  using markdownScore_indep[of "text" "snd (asciiArtScore text h)" h]
  by (simp add: case_prod_beta Let_def asciiArtScore_heap markdownScore_heap)

lemma fence_ends:
  assumes "text = pre @ w @ mid @ w @ post"
  shows "ends (seqs [Lit w, r_lazy_star r_any, Lit w]) False ml text (length pre) \<noteq> []"
proof -
  let ?p = "length pre" and ?q = "length pre + length w + length mid"
  have 1: "lit_at False w text ?p"
    unfolding lit_at_iff using assms by blast
  have "text = (pre @ w @ mid) @ w @ post" using assms by simp
  then have 2: "lit_at False w text ?q"
    unfolding lit_at_iff by (metis length_append add.assoc)
  have le: "?p + length w \<le> length text" using assms by simp
  have 3: "?q \<in> set (ends (r_lazy_star r_any) False ml text (?p + length w))"
    unfolding r_lazy_star_def r_any_def set_ends_star_cls[OF le]
    using assms by (simp add: cls_member_def in_ranges_def)
  have "?q + length w \<in> set (ends (seqs [Lit w, r_lazy_star r_any, Lit w]) False ml text ?p)"
    unfolding seqs_Cons seqs_Nil set_ends_Seq
    using 1 2 3 by auto
  then show ?thesis by auto
qed

lemma fenced_test:
  assumes "text = pre @ str ''```'' @ mid @ str ''```'' @ post \<or>
           text = pre @ str ''~~~'' @ mid @ str ''~~~'' @ post"
  shows "test (re_m fenced_pattern) text"
proof -
  have le: "length pre \<le> length text" using assms by auto
  have "ends (seqs [lit ''```'', r_lazy_star r_any, lit ''```'']) False True text (length pre) \<noteq> [] \<or>
        ends (seqs [lit ''~~~'', r_lazy_star r_any, lit ''~~~'']) False True text (length pre) \<noteq> []"
    using assms fence_ends[of "text" pre "str ''```''" mid post True]
      fence_ends[of "text" pre "str ''~~~''" mid post True]
    unfolding lit_def by blast
  then have "match_at (re_m fenced_pattern) text (length pre) \<noteq> []"
    by (auto simp: match_at_def re_m_def fenced_pattern_def)
  with le show ?thesis
    using test_iff[of "re_m fenced_pattern" "text"] by auto
qed

lemma classify_code: "test (re_m fenced_pattern) text \<Longrightarrow> classify text a m = ''code''"
  by (simp add: classify_def)


section \<open>Fenced blocks\<close>

text \<open>
  Claim C3. A string that contains a balanced fenced block, that is a triple
  backtick followed somewhere later by another triple backtick, or the same with
  tildes, with anything (also line breaks) in between, is classified as
  \<^verbatim>\<open>code\<close>, whatever the two scores are and whatever the later fast paths
  (xml, html, json) would say. Such a string is never empty after trimming.
\<close>

theorem fenced_block_is_code:
  assumes "text = pre @ str ''```'' @ mid @ str ''```'' @ post \<or>
           text = pre @ str ''~~~'' @ mid @ str ''~~~'' @ post"
  shows "text_format (fst (detectTextFormat (JSString text) h)) = ''code''"
proof -
  have "96 \<in> set text \<or> 126 \<in> set text" using assms by (auto simp: str_def)
  moreover have "\<not> isWhiteSpace 96" "\<not> isWhiteSpace 126"
    by (simp_all add: isWhiteSpace_def in_ranges_def WhiteSpace_def)
  ultimately have ne: "trim text \<noteq> []" unfolding trim_eq_Nil_iff by blast
  show ?thesis
    unfolding detect_string[OF ne] by (simp add: classify_code[OF fenced_test[OF assms]])
qed

theorem fenced_block_is_code_witness:
  "text_format (fst (detectTextFormat (JSString (str ''# T ```x```''))
      initial_heap)) = ''code''"
  using fenced_block_is_code[of "str ''# T ```x```''" "str ''# T ''" "str ''x''" "[]" initial_heap]
  by (simp add: str_def)

lemma toFixed3_bounds: "0 \<le> x \<Longrightarrow> x \<le> 1 \<Longrightarrow> 0 \<le> toFixed3 x \<and> toFixed3 x \<le> 1"
proof -
  assume x: "0 \<le> x" "x \<le> 1"
  have "0 \<le> \<lfloor>x * 1000 + 1 / 2\<rfloor>" using x by simp
  moreover have "\<lfloor>x * 1000 + 1 / 2\<rfloor> \<le> 1000"
  proof -
    have "x * 1000 + 1 / 2 < 1001" using x by simp
    then have "\<lfloor>x * 1000 + 1 / 2\<rfloor> < 1001" by (simp add: floor_less_iff)
    then show ?thesis by simp
  qed
  ultimately show ?thesis by (simp add: toFixed3_def)
qed

lemma toFixed3_0: "toFixed3 0 = 0"
  by (simp add: toFixed3_def)

lemma codeLikePenalty_cases: "codeLikePenalty text = 0 \<or> codeLikePenalty text = 0.15"
  by (simp add: codeLikePenalty_def Let_def)

lemma codeLikePenalty_nonneg: "0 \<le> codeLikePenalty text"
  using codeLikePenalty_cases[of "text"] by auto

lemma asciiFinal_bounds:
  "0 \<le> asciiFinal_of (fst (asciiArtScore text h)) (codeLikePenalty text) \<and>
   asciiFinal_of (fst (asciiArtScore text h)) (codeLikePenalty text) \<le> 1"
  using asciiArtScore_bounds[of "text" h] codeLikePenalty_nonneg[of "text"]
  by (simp add: asciiFinal_of_def)

lemma classify_tags:
  "classify text a m \<in> {''plain'', ''markdown'', ''ascii'', ''code'', ''html'', ''json'', ''xml''}"
  by (simp add: classify_def Let_def)

lemma detect_empty:
  "trim s = [] \<Longrightarrow> detectTextFormat (JSString s) h =
     (\<lparr>text_format = ''plain'', asciiArt = 0, markdown = 0, reasons_ascii = [''empty''],
       reasons_markdown = [], codePenaltyApplied = None, result_stats = None\<rparr>, h)"
  by simp

lemma asciiArtScore_few_lines:
  "length (split_lf (normalize_newlines text)) < 3 \<Longrightarrow>
   asciiArtScore text h = (\<lparr>a_score = 0, a_reasons = [''too_few_lines''], a_stats = None\<rparr>, h)"
  by (simp add: asciiArtScore_def)

lemma classify_not_ascii: "a < 0.35 \<Longrightarrow> classify text a m \<noteq> ''ascii''"
  by (simp add: classify_def Let_def)




lemma few_lines_format:
  assumes "trim text \<noteq> []" and "length (split_lf (normalize_newlines text)) < 3"
  shows "text_format (fst (detectTextFormat (JSString text) h)) =
         classify text 0 (m_score (fst (markdownScore text initial_heap)))"
proof -
  have a: "fst (asciiArtScore text h) = \<lparr>a_score = 0, a_reasons = [''too_few_lines''], a_stats = None\<rparr>"
    by (simp add: asciiArtScore_few_lines[OF assms(2)])
  have fin: "asciiFinal_of (fst (asciiArtScore text h)) (codeLikePenalty text) = 0"
    using codeLikePenalty_nonneg[of "text"] by (simp add: a asciiFinal_of_def)
  show ?thesis
    unfolding detect_string[OF assms(1)] fin markdownScore_indep[of "text" h initial_heap]
    by simp
qed

lemma few_lines_example:
  assumes "trim t \<noteq> [] \<and> length (split_lf (normalize_newlines t)) < 3 \<and>
           classify t 0 (m_score (fst (markdownScore t initial_heap))) = f"
  shows "\<exists>t. trim t \<noteq> [] \<and> length (split_lf (normalize_newlines t)) < 3 \<and>
             text_format (fst (detectTextFormat (JSString t) h)) = f"
  using assms few_lines_format[of t h] by blast

lemma ex_code:
  "trim (str ''``````'') \<noteq> [] \<and> length (split_lf (normalize_newlines (str ''``````''))) < 3 \<and>
   classify (str ''``````'') 0 (m_score (fst (markdownScore (str ''``````'') initial_heap))) = ''code''"
  by code_simp

lemma ex_xml:
  "trim (str ''<?xml'') \<noteq> [] \<and> length (split_lf (normalize_newlines (str ''<?xml''))) < 3 \<and>
   classify (str ''<?xml'') 0 (m_score (fst (markdownScore (str ''<?xml'') initial_heap))) = ''xml''"
  by code_simp

lemma ex_html:
  "trim (str ''<a>'') \<noteq> [] \<and> length (split_lf (normalize_newlines (str ''<a>''))) < 3 \<and>
   classify (str ''<a>'') 0 (m_score (fst (markdownScore (str ''<a>'') initial_heap))) = ''html''"
  by code_simp

lemma ex_json:
  "trim (str ''{}'') \<noteq> [] \<and> length (split_lf (normalize_newlines (str ''{}''))) < 3 \<and>
   classify (str ''{}'') 0 (m_score (fst (markdownScore (str ''{}'') initial_heap))) = ''json''"
  by code_simp

lemma ex_markdown:
  "trim (str ''# T'') \<noteq> [] \<and> length (split_lf (normalize_newlines (str ''# T''))) < 3 \<and>
   classify (str ''# T'') 0 (m_score (fst (markdownScore (str ''# T'') initial_heap))) = ''markdown''"
  by code_simp

lemma ex_plain:
  "trim (str ''Hi'') \<noteq> [] \<and> length (split_lf (normalize_newlines (str ''Hi''))) < 3 \<and>
   classify (str ''Hi'') 0 (m_score (fst (markdownScore (str ''Hi'') initial_heap))) = ''plain''"
  by code_simp

lemma few_lines_other_formats:
  "list_all (\<lambda>f. \<exists>t. trim t \<noteq> [] \<and> length (split_lf (normalize_newlines t)) < 3 \<and>
                     text_format (fst (detectTextFormat (JSString t) h)) = f)
     [''code'', ''xml'', ''html'', ''json'', ''markdown'', ''plain'']"
  using few_lines_example[OF ex_code, of h] few_lines_example[OF ex_xml, of h]
    few_lines_example[OF ex_html, of h] few_lines_example[OF ex_json, of h]
    few_lines_example[OF ex_markdown, of h] few_lines_example[OF ex_plain, of h]
  by (simp only: list.pred_inject simp_thms)

section \<open>The model on sample inputs\<close>

text \<open>
  Two inputs of the repository's tests (a JSON array is \<^verbatim>\<open>json\<close>, a very short
  text is \<^verbatim>\<open>plain\<close>), sample lines for each of the five code hints, and the
  ASCII-art score of the three-line box.
\<close>

lemma few_lines_detect:
  assumes "trim text \<noteq> []" and "length (split_lf (normalize_newlines text)) < 3"
  shows "fst (detectTextFormat (JSString text) h) =
     \<lparr>text_format = classify text 0 (m_score (fst (markdownScore text initial_heap))),
      asciiArt = 0,
      markdown = toFixed3 (m_score (fst (markdownScore text initial_heap))),
      reasons_ascii = [''too_few_lines''],
      reasons_markdown = m_reasons (fst (markdownScore text initial_heap)),
      codePenaltyApplied = Some (0 < codeLikePenalty text),
      result_stats = None\<rparr>"
proof -
  have a: "fst (asciiArtScore text h) = \<lparr>a_score = 0, a_reasons = [''too_few_lines''], a_stats = None\<rparr>"
    by (simp add: asciiArtScore_few_lines[OF assms(2)])
  have fin: "asciiFinal_of (fst (asciiArtScore text h)) (codeLikePenalty text) = 0"
    using codeLikePenalty_nonneg[of "text"] by (simp add: a asciiFinal_of_def)
  show ?thesis
    unfolding detect_string[OF assms(1)] fin markdownScore_indep[of "text" h initial_heap]
    by (simp add: a toFixed3_0)
qed

lemma example_json_array:
  "fst (detectTextFormat (JSString (str ''[1, 2, 3, 4, 5]'')) initial_heap) =
   \<lparr>text_format = ''json'', asciiArt = 0, markdown = 0, reasons_ascii = [''too_few_lines''],
    reasons_markdown = [], codePenaltyApplied = Some False, result_stats = None\<rparr>"
proof -
  let ?t = "str ''[1, 2, 3, 4, 5]''"
  have 1: "trim ?t \<noteq> []" by code_simp
  have 2: "length (split_lf (normalize_newlines ?t)) < 3" by code_simp
  show ?thesis unfolding few_lines_detect[OF 1 2] by code_simp
qed

lemma example_short_text:
  "fst (detectTextFormat (JSString (str ''Hi'')) initial_heap) =
   \<lparr>text_format = ''plain'', asciiArt = 0, markdown = 0, reasons_ascii = [''too_few_lines''],
    reasons_markdown = [], codePenaltyApplied = Some False, result_stats = None\<rparr>"
proof -
  let ?t = "str ''Hi''"
  have 1: "trim ?t \<noteq> []" by code_simp
  have 2: "length (split_lf (normalize_newlines ?t)) < 3" by code_simp
  show ?thesis unfolding few_lines_detect[OF 1 2] by code_simp
qed

lemma codeHints_examples:
  "map (\<lambda>l. map (\<lambda>r. test r l) codeHints)
     [str ''  indented'', 9 # str ''tab'', str '' one space'', str ''x = 1;  '', str ''x; y'',
      str ''if x'', str ''iffy'', str ''a { b'', str ''Exception: boom'',
      str ''at foo.bar (file.js:1:2)'', str ''plain words here''] =
   [[True, False, False, False, False], [True, False, False, False, False],
    [False, False, False, False, False], [False, True, False, False, False],
    [False, False, False, False, False], [False, False, True, False, False],
    [False, False, False, False, False], [False, False, False, True, False],
    [False, False, False, False, True], [False, False, False, False, True],
    [False, False, False, False, False]]"
  by code_simp





section \<open>Range of the result\<close>

text \<open>
  Claim C1. For every argument, a string or not, both scores of the result lie
  between 0 and 1, and the format is one of the seven tags \<^verbatim>\<open>plain\<close>,
  \<^verbatim>\<open>markdown\<close>, \<^verbatim>\<open>ascii\<close>, \<^verbatim>\<open>code\<close>, \<^verbatim>\<open>html\<close>, \<^verbatim>\<open>json\<close>, \<^verbatim>\<open>xml\<close>.
\<close>

theorem detect_result_in_range:
  "0 \<le> asciiArt (fst (detectTextFormat v h)) \<and> asciiArt (fst (detectTextFormat v h)) \<le> 1 \<and>
   0 \<le> markdown (fst (detectTextFormat v h)) \<and> markdown (fst (detectTextFormat v h)) \<le> 1 \<and>
   text_format (fst (detectTextFormat v h)) \<in>
     {''plain'', ''markdown'', ''ascii'', ''code'', ''html'', ''json'', ''xml''}"
proof (cases v)
  case NotAString
  then show ?thesis by simp
next
  case (JSString s)
  show ?thesis
  proof (cases "trim s = []")
    case True
    then show ?thesis unfolding JSString detect_empty[OF True] by simp
  next
    case False
    show ?thesis
      unfolding JSString detect_string[OF False]
      using toFixed3_bounds[of "asciiFinal_of (fst (asciiArtScore s h)) (codeLikePenalty s)"]
        toFixed3_bounds[of "m_score (fst (markdownScore s h))"]
        asciiFinal_bounds[of s h] markdownScore_bounds[of s h] classify_tags
      by simp
  qed
qed

section \<open>Invalid input\<close>

text \<open>
  Claim C2. When the argument is not a string, or is a string whose trimmed
  form is empty, the result is the fixed record: format \<^verbatim>\<open>plain\<close>, both scores
  0, the ASCII reasons \<^verbatim>\<open>['empty']\<close>, no markdown reasons, no
  \<^verbatim>\<open>codePenaltyApplied\<close> and no stats. The call returns this value (it does not
  fail) and touches no pattern object: the heap is returned as it was.
\<close>

theorem detect_invalid_input:
  assumes "v = NotAString \<or> (\<exists>s. v = JSString s \<and> trim s = [])"
  shows "detectTextFormat v h =
     (\<lparr>text_format = ''plain'', asciiArt = 0, markdown = 0, reasons_ascii = [''empty''],
       reasons_markdown = [], codePenaltyApplied = None, result_stats = None\<rparr>, h)"
  using assms by (auto simp: detect_empty)

theorem detect_invalid_input_witness:
  "detectTextFormat NotAString initial_heap =
     (\<lparr>text_format = ''plain'', asciiArt = 0, markdown = 0, reasons_ascii = [''empty''],
       reasons_markdown = [], codePenaltyApplied = None, result_stats = None\<rparr>, initial_heap) \<and>
   detectTextFormat (JSString (str ''   '' @ [10, 9] @ str '' '')) initial_heap =
     (\<lparr>text_format = ''plain'', asciiArt = 0, markdown = 0, reasons_ascii = [''empty''],
       reasons_markdown = [], codePenaltyApplied = None, result_stats = None\<rparr>, initial_heap)"
proof -
  have ws: "trim (str ''   '' @ [10, 9] @ str '' '') = []"
    by code_simp
  show ?thesis
    using detect_invalid_input[of NotAString initial_heap]
      detect_invalid_input[of "JSString (str ''   '' @ [10, 9] @ str '' '')" initial_heap] ws
    by blast
qed

section \<open>The score comparison\<close>



section \<open>The code penalty\<close>



section \<open>Determinism\<close>

text \<open>
  Claim C9. The result of \<^verbatim>\<open>detectTextFormat\<close> depends on the argument only:
  it is the same from any two heaps (any values of \<^verbatim>\<open>lastIndex\<close> in the
  module's pattern objects), the call leaves the heap as it found it, and so a
  second call on the same argument returns the same result as the first.
\<close>

theorem detect_deterministic:
  "fst (detectTextFormat v h) = fst (detectTextFormat v h') \<and>
   snd (detectTextFormat v h) = h \<and>
   fst (detectTextFormat v (snd (detectTextFormat v h))) = fst (detectTextFormat v h)"
proof (cases v)
  case NotAString
  then show ?thesis by simp
next
  case (JSString s)
  show ?thesis
  proof (cases "trim s = []")
    case True
    then show ?thesis unfolding JSString by (simp only: detect_empty fst_conv snd_conv simp_thms)
  next
    case False
    show ?thesis
      unfolding JSString detect_string[OF False] fst_conv snd_conv
      using asciiArtScore_indep[of s h h'] markdownScore_indep[of s h h']
      by simp
  qed
qed

section \<open>Fewer than three lines\<close>

text \<open>
  Claim C10. For a string that is not empty after trimming and whose
  normalized form has fewer than three lines, \<^verbatim>\<open>asciiArtScore\<close> returns score
  0, the single reason \<^verbatim>\<open>too_few_lines\<close> and no stats; the final ASCII score
  is 0 and the format is never \<^verbatim>\<open>ascii\<close>. Each of the six other formats does
  occur on such input.
\<close>

theorem few_lines_never_ascii:
  assumes "trim text \<noteq> []" and "length (split_lf (normalize_newlines text)) < 3"
  shows "fst (asciiArtScore text h) = \<lparr>a_score = 0, a_reasons = [''too_few_lines''], a_stats = None\<rparr> \<and>
         asciiArt (fst (detectTextFormat (JSString text) h)) = 0 \<and>
         reasons_ascii (fst (detectTextFormat (JSString text) h)) = [''too_few_lines''] \<and>
         result_stats (fst (detectTextFormat (JSString text) h)) = None \<and>
         text_format (fst (detectTextFormat (JSString text) h)) \<noteq> ''ascii'' \<and>
         list_all (\<lambda>f. \<exists>t. trim t \<noteq> [] \<and> length (split_lf (normalize_newlines t)) < 3 \<and>
                            text_format (fst (detectTextFormat (JSString t) h)) = f)
           [''code'', ''xml'', ''html'', ''json'', ''markdown'', ''plain'']"
proof -
  have a: "fst (asciiArtScore text h) = \<lparr>a_score = 0, a_reasons = [''too_few_lines''], a_stats = None\<rparr>"
    by (simp add: asciiArtScore_few_lines[OF assms(2)])
  have fin: "asciiFinal_of (fst (asciiArtScore text h)) (codeLikePenalty text) = 0"
    using codeLikePenalty_nonneg[of "text"] by (simp add: a asciiFinal_of_def)
  show ?thesis
    unfolding detect_string[OF assms(1)] fin
    using few_lines_other_formats[of h]
    by (simp add: a toFixed3_0 classify_not_ascii del: list.pred_inject)
qed

theorem few_lines_never_ascii_witness:
  "fst (asciiArtScore (str ''# T'') initial_heap) =
     \<lparr>a_score = 0, a_reasons = [''too_few_lines''], a_stats = None\<rparr> \<and>
   asciiArt (fst (detectTextFormat (JSString (str ''# T'')) initial_heap)) = 0 \<and>
   reasons_ascii (fst (detectTextFormat (JSString (str ''# T'')) initial_heap)) = [''too_few_lines''] \<and>
   result_stats (fst (detectTextFormat (JSString (str ''# T'')) initial_heap)) = None \<and>
   text_format (fst (detectTextFormat (JSString (str ''# T'')) initial_heap)) \<noteq> ''ascii''"
proof -
  have 1: "trim (str ''# T'') \<noteq> []" by code_simp
  have few: "length (split_lf (normalize_newlines (str ''# T''))) < 3" by code_simp
  show ?thesis using few_lines_never_ascii[OF 1 few, of initial_heap] by blast
qed

section \<open>The JSON fast path\<close>

lemma in_ends_Seq:
  "e \<in> set (ends (Seq a b) ic ml s i) \<longleftrightarrow> (\<exists>j. j \<in> set (ends a ic ml s i) \<and> e \<in> set (ends b ic ml s j))"
  by auto

lemma in_ends_Cls:
  "e \<in> set (ends (Cls neg rs) ic ml s i) \<longleftrightarrow>
     i < length s \<and> cls_member ic rs (s ! i) \<noteq> neg \<and> e = Suc i"
  by auto

lemma in_ends_star_ws:
  assumes "i \<le> length s"
  shows "e \<in> set (ends (r_star r_ws) False ml s i) \<longleftrightarrow> i \<le> e \<and> e \<le> length s \<and> ws_run s i e"
  unfolding r_star_def r_ws_def set_ends_star_cls[OF assms]
  by (simp add: ws_run_def cls_member_def isWhiteSpace_def)

lemma in_ends_star_any:
  assumes "i \<le> length s"
  shows "e \<in> set (ends (r_star r_any) False ml s i) \<longleftrightarrow> i \<le> e \<and> e \<le> length s"
  unfolding r_star_def r_any_def set_ends_star_cls[OF assms]
  by (simp add: cls_member_def in_ranges_def)

lemma in_ends_Bol:
  "e \<in> set (ends Bol ic True s i) \<longleftrightarrow>
     e = i \<and> (i = 0 \<or> (i \<le> length s \<and> isLineTerminator (s ! (i - 1))))"
  by auto

lemma in_ends_Eol_Eps:
  "e \<in> set (ends (Seq Eol Eps) ic True s i) \<longleftrightarrow>
     e = i \<and> (i = length s \<or> (i < length s \<and> isLineTerminator (s ! i)))"
  by auto

lemma open_bracket: "cls_member False (chars ''{['') c \<longleftrightarrow> c = of_char CHR ''{'' \<or> c = of_char CHR ''[''"
  by (auto simp: cls_member_def in_ranges_def chars_def)

lemma close_bracket: "cls_member False (chars '']}'') c \<longleftrightarrow> c = of_char CHR '']'' \<or> c = of_char CHR ''}''"
  by (auto simp: cls_member_def in_ranges_def chars_def)

lemma json_tail:
  assumes "j \<le> length s"
  shows "e \<in> set (ends (seqs [Cls False (chars '']}''), r_star r_ws, Eol]) False True s j) \<longleftrightarrow>
         j < length s \<and> (s ! j = of_char CHR '']'' \<or> s ! j = of_char CHR ''}'') \<and>
         j < e \<and> e \<le> length s \<and> ws_run s (Suc j) e \<and>
         (e = length s \<or> isLineTerminator (s ! e))"
proof -
  have "e \<in> set (ends (seqs [Cls False (chars '']}''), r_star r_ws, Eol]) False True s j) \<longleftrightarrow>
        (j < length s \<and> cls_member False (chars '']}'') (s ! j) \<and>
         e \<in> set (ends (Seq (r_star r_ws) (Seq Eol Eps)) False True s (Suc j)))"
    unfolding seqs_Cons seqs_Nil in_ends_Seq[of e "Cls False (chars '']}'')"] in_ends_Cls by auto
  also have "\<dots> \<longleftrightarrow> (j < length s \<and> cls_member False (chars '']}'') (s ! j) \<and>
         (\<exists>x. Suc j \<le> x \<and> x \<le> length s \<and> ws_run s (Suc j) x \<and>
              e \<in> set (ends (Seq Eol Eps) False True s x)))"
    unfolding in_ends_Seq[of e "r_star r_ws"]
    by (auto simp: in_ends_star_ws)
  also have "\<dots> \<longleftrightarrow> (j < length s \<and> (s ! j = of_char CHR '']'' \<or> s ! j = of_char CHR ''}'') \<and>
         j < e \<and> e \<le> length s \<and> ws_run s (Suc j) e \<and>
         (e = length s \<or> isLineTerminator (s ! e)))"
    unfolding in_ends_Eol_Eps close_bracket by (auto simp: Suc_le_eq)
  finally show ?thesis .
qed

lemma json_mid:
  assumes "i \<le> length s"
  shows "e \<in> set (ends (seqs [Cls False (chars ''{[''), r_star r_any, Cls False (chars '']}''),
                               r_star r_ws, Eol]) False True s i) \<longleftrightarrow>
         (s ! i = of_char CHR ''{'' \<or> s ! i = of_char CHR ''['') \<and>
         (\<exists>j. i < j \<and> (s ! j = of_char CHR '']'' \<or> s ! j = of_char CHR ''}'') \<and>
              j < e \<and> e \<le> length s \<and> ws_run s (Suc j) e \<and>
              (e = length s \<or> isLineTerminator (s ! e)))"
proof -
  let ?tail = "seqs [Cls False (chars '']}''), r_star r_ws, Eol]"
  have "e \<in> set (ends (seqs [Cls False (chars ''{[''), r_star r_any, Cls False (chars '']}''),
                               r_star r_ws, Eol]) False True s i) \<longleftrightarrow>
        (i < length s \<and> cls_member False (chars ''{['') (s ! i) \<and>
         e \<in> set (ends (Seq (r_star r_any) ?tail) False True s (Suc i)))"
    unfolding seqs_Cons[of "Cls False (chars ''{['')"] seqs_Cons[of "r_star r_any"]
      in_ends_Seq[of e "Cls False (chars ''{['')"] in_ends_Cls by auto
  also have "\<dots> \<longleftrightarrow> (i < length s \<and> cls_member False (chars ''{['') (s ! i) \<and>
         (\<exists>j. Suc i \<le> j \<and> j \<le> length s \<and> e \<in> set (ends ?tail False True s j)))"
    unfolding in_ends_Seq[of e "r_star r_any"] by (auto simp: in_ends_star_any)
  also have "\<dots> \<longleftrightarrow> (i < length s \<and> cls_member False (chars ''{['') (s ! i) \<and>
         (\<exists>j. Suc i \<le> j \<and> j \<le> length s \<and> j < length s \<and>
              (s ! j = of_char CHR '']'' \<or> s ! j = of_char CHR ''}'') \<and>
              j < e \<and> e \<le> length s \<and> ws_run s (Suc j) e \<and>
              (e = length s \<or> isLineTerminator (s ! e))))"
    using json_tail[of _ s e] by (metis (no_types, lifting))
  also have "\<dots> \<longleftrightarrow> ((s ! i = of_char CHR ''{'' \<or> s ! i = of_char CHR ''['') \<and>
         (\<exists>j. i < j \<and> (s ! j = of_char CHR '']'' \<or> s ! j = of_char CHR ''}'') \<and>
              j < e \<and> e \<le> length s \<and> ws_run s (Suc j) e \<and>
              (e = length s \<or> isLineTerminator (s ! e))))"
    unfolding open_bracket by (auto simp: Suc_le_eq)
  finally show ?thesis .
qed


lemma json_match:
  assumes "p \<le> length s"
  shows "e \<in> set (match_at json_re s p) \<longleftrightarrow>
         (p = 0 \<or> isLineTerminator (s ! (p - 1))) \<and>
         (\<exists>i j. p \<le> i \<and> ws_run s p i \<and>
            i < j \<and> (s ! i = of_char CHR ''{'' \<or> s ! i = of_char CHR ''['') \<and>
            j < e \<and> (s ! j = of_char CHR '']'' \<or> s ! j = of_char CHR ''}'') \<and>
            e \<le> length s \<and> ws_run s (Suc j) e \<and>
            (e = length s \<or> isLineTerminator (s ! e)))"
proof -
  let ?mid = "seqs [Cls False (chars ''{[''), r_star r_any, Cls False (chars '']}''), r_star r_ws, Eol]"
  have "e \<in> set (match_at json_re s p) \<longleftrightarrow>
        (p = 0 \<or> isLineTerminator (s ! (p - 1))) \<and>
        e \<in> set (ends (Seq (r_star r_ws) ?mid) False True s p)"
    unfolding match_at_def json_re_def re_m_def seqs_Cons[of Bol] seqs_Cons[of "r_star r_ws"]
      in_ends_Seq[of e Bol] in_ends_Bol
    using assms by auto
  also have "\<dots> \<longleftrightarrow> (p = 0 \<or> isLineTerminator (s ! (p - 1))) \<and>
        (\<exists>i. p \<le> i \<and> i \<le> length s \<and> ws_run s p i \<and> e \<in> set (ends ?mid False True s i))"
    unfolding in_ends_Seq[of e "r_star r_ws"] using assms by (auto simp: in_ends_star_ws)
  also have "\<dots> \<longleftrightarrow> (p = 0 \<or> isLineTerminator (s ! (p - 1))) \<and>
        (\<exists>i. p \<le> i \<and> i \<le> length s \<and> ws_run s p i \<and>
           (s ! i = of_char CHR ''{'' \<or> s ! i = of_char CHR ''['') \<and>
           (\<exists>j. i < j \<and> (s ! j = of_char CHR '']'' \<or> s ! j = of_char CHR ''}'') \<and>
              j < e \<and> e \<le> length s \<and> ws_run s (Suc j) e \<and>
              (e = length s \<or> isLineTerminator (s ! e))))"
    using json_mid[of _ s e] by (metis (no_types, lifting))
  also have "\<dots> \<longleftrightarrow> (p = 0 \<or> isLineTerminator (s ! (p - 1))) \<and>
         (\<exists>i j. p \<le> i \<and> ws_run s p i \<and>
            i < j \<and> (s ! i = of_char CHR ''{'' \<or> s ! i = of_char CHR ''['') \<and>
            j < e \<and> (s ! j = of_char CHR '']'' \<or> s ! j = of_char CHR ''}'') \<and>
            e \<le> length s \<and> ws_run s (Suc j) e \<and>
            (e = length s \<or> isLineTerminator (s ! e)))"
    by (intro conj_cong refl iffI; clarify; (rule exI conjI | assumption | linarith)+)
  finally show ?thesis .
qed

lemma json_test_iff: "test json_re s \<longleftrightarrow> json_wrapped s"
proof -
  have ng: "\<not> global json_re" by (simp add: json_re_def)
  have "test json_re s \<longleftrightarrow> (\<exists>p\<le>length s. \<exists>e. e \<in> set (match_at json_re s p))"
    unfolding test_iff[OF ng] by (simp add: ex_in_conv)
  also have "\<dots> \<longleftrightarrow> json_wrapped s"
  proof
    assume "\<exists>p\<le>length s. \<exists>e. e \<in> set (match_at json_re s p)"
    then obtain p e where "p \<le> length s" "e \<in> set (match_at json_re s p)" by blast
    then show "json_wrapped s"
      unfolding json_wrapped_def using json_match[of p s e] by blast
  next
    assume "json_wrapped s"
    then obtain p i j e where w: "p = 0 \<or> isLineTerminator (s ! (p - 1))"
        "p \<le> i" "ws_run s p i" "i < j"
        "s ! i = of_char CHR ''{'' \<or> s ! i = of_char CHR ''[''"
        "j < e" "s ! j = of_char CHR '']'' \<or> s ! j = of_char CHR ''}''"
        "e \<le> length s" "ws_run s (Suc j) e" "e = length s \<or> isLineTerminator (s ! e)"
      unfolding json_wrapped_def by blast
    then have p: "p \<le> length s" by linarith
    have "e \<in> set (match_at json_re s p)"
      unfolding json_match[OF p] using w by blast
    with p show "\<exists>p\<le>length s. \<exists>e. e \<in> set (match_at json_re s p)" by blast
  qed
  finally show ?thesis .
qed

lemma classify_json:
  assumes "\<not> test (re_m fenced_pattern) text" and "\<not> test xml_re text" and "\<not> test html_re text"
  shows "classify text a m = ''json'' \<longleftrightarrow> test json_re text"
  using assms by (simp add: classify_def Let_def)

lemma ws_run_empty: "j \<le> i \<Longrightarrow> ws_run s i j"
  by (auto simp: ws_run_def)

text \<open>
  Claim C5, as amended. Given that no earlier fast path fired, the JSON test
  succeeds exactly on the strings of the shape \<open>json_wrapped\<close>: an opening
  \<^verbatim>\<open>{\<close> or \<^verbatim>\<open>[\<close> that follows a line start and white space, and a later
  \<^verbatim>\<open>}\<close> or \<^verbatim>\<open>]\<close>, not necessarily the matching one, that is followed by white
  space up to the end of a line or of the text. The format is \<^verbatim>\<open>json\<close> exactly
  then.
\<close>

theorem json_fast_path:
  assumes "trim text \<noteq> []"
    and "\<not> test (re_m fenced_pattern) text" and "\<not> test xml_re text" and "\<not> test html_re text"
  shows "(test json_re text \<longleftrightarrow> json_wrapped text) \<and>
         (text_format (fst (detectTextFormat (JSString text) h)) = ''json'' \<longleftrightarrow> json_wrapped text)"
  unfolding detect_string[OF assms(1)]
  by (simp add: classify_json[OF assms(2-4)] json_test_iff)

theorem json_fast_path_witness:
  "test json_re (str ''{}'') \<and>
   text_format (fst (detectTextFormat (JSString (str ''{}'')) initial_heap)) = ''json''"
proof -
  have 1: "trim (str ''{}'') \<noteq> []" by code_simp
  have 2: "\<not> test (re_m fenced_pattern) (str ''{}'')" by code_simp
  have 3: "\<not> test xml_re (str ''{}'')" by code_simp
  have 4: "\<not> test html_re (str ''{}'')" by code_simp
  have "(0 = (0::nat) \<or> isLineTerminator (str ''{}'' ! (0 - 1))) \<and>
        (0::nat) \<le> 0 \<and> ws_run (str ''{}'') 0 0 \<and>
        (0::nat) < 1 \<and> (str ''{}'' ! 0 = of_char CHR ''{'' \<or> str ''{}'' ! 0 = of_char CHR ''['') \<and>
        (1::nat) < 2 \<and> (str ''{}'' ! 1 = of_char CHR '']'' \<or> str ''{}'' ! 1 = of_char CHR ''}'') \<and>
        2 \<le> length (str ''{}'') \<and> ws_run (str ''{}'') (Suc 1) 2 \<and>
        (2 = length (str ''{}'') \<or> isLineTerminator (str ''{}'' ! 2))"
    by (simp add: ws_run_empty str_def)
  then have "json_wrapped (str ''{}'')"
    unfolding json_wrapped_def by blast
  then show ?thesis
    using json_fast_path[OF 1 2 3 4, of initial_heap] by blast
qed

text \<open>
  The claim as first stated asks for the matching bracket at the end of the
  whole text. The text \<^verbatim>\<open>{1]\<close>, line feed, \<^verbatim>\<open>x\<close> opens with a brace, ends
  with neither bracket, and is classified as \<^verbatim>\<open>json\<close>.
\<close>

theorem json_fast_path_counterexample:
  "text_format (fst (detectTextFormat (JSString (str ''{1]'' @ [10] @ str ''x'')) initial_heap)) = ''json'' \<and>
   hd (str ''{1]'' @ [10] @ str ''x'') = of_char CHR ''{'' \<and>
   last (str ''{1]'' @ [10] @ str ''x'') \<noteq> of_char CHR ''}'' \<and>
   last (str ''{1]'' @ [10] @ str ''x'') \<noteq> of_char CHR '']''"
proof -
  let ?t = "str ''{1]'' @ [10] @ str ''x''"
  have 1: "trim ?t \<noteq> []" by code_simp
  have 2: "length (split_lf (normalize_newlines ?t)) < 3" by code_simp
  have 3: "classify ?t 0 (m_score (fst (markdownScore ?t initial_heap))) = ''json''" by code_simp
  have "text_format (fst (detectTextFormat (JSString ?t) initial_heap)) = ''json''"
    unfolding few_lines_format[OF 1 2] by (rule 3)
  moreover have "hd ?t = of_char CHR ''{''" "last ?t \<noteq> of_char CHR ''}''" "last ?t \<noteq> of_char CHR '']''"
    by (simp_all add: str_def)
  ultimately show ?thesis by blast
qed

section \<open>Order of the markdown reasons\<close>

lemma map_fst_filter_map_of:
  "distinct (map fst xs) \<Longrightarrow>
   map fst (filter (\<lambda>e. P (snd e)) xs) =
   filter (\<lambda>n. case map_of xs n of None \<Rightarrow> False | Some v \<Rightarrow> P v) (map fst xs)"
proof (induction xs)
  case Nil
  then show ?case by simp
next
  case (Cons e xs)
  obtain k v where e: "e = (k, v)" by (cases e)
  have k: "k \<notin> fst ` set xs" and d: "distinct (map fst xs)" using Cons.prems e by auto
  have same: "filter (\<lambda>n. case map_of ((k, v) # xs) n of None \<Rightarrow> False | Some v \<Rightarrow> P v) (map fst xs) =
              filter (\<lambda>n. case map_of xs n of None \<Rightarrow> False | Some v \<Rightarrow> P v) (map fst xs)"
    by (rule filter_cong) (use k in auto)
  show ?case
    unfolding e using Cons.IH[OF d] same by simp
qed

lemma MD_names:
  "map fst MD = [''heading'', ''setext'', ''list'', ''blockquote'', ''fenced'', ''inlineCode'',
                 ''link'', ''image'', ''tableRow'', ''hr'', ''emphasis'', ''html'', ''frontMatter'']"
  by (simp add: MD_def)

lemma md_matches_names:
  "map fst (md_matches raw) =
   matched_features raw
     [''heading'', ''setext'', ''list'', ''blockquote'', ''fenced'', ''inlineCode'',
      ''link'', ''image'', ''tableRow'', ''hr'', ''emphasis'', ''html'', ''frontMatter'']"
proof -
  have "distinct (map fst MD)" unfolding MD_names by simp
  from map_fst_filter_map_of[OF this, of "\<lambda>rx. test rx raw"]
  show ?thesis
    unfolding md_matches_def matched_features_def md_feature_matches_def[abs_def] MD_names .
qed

text \<open>
  Claim C8, as amended. The markdown reasons of the result are the names of the
  matching features in the order of the \<^verbatim>\<open>MD\<close> object literal, which is the
  order the loop visits them: heading, setext, list, blockquote, fenced,
  inlineCode, link, image, tableRow, hr, emphasis, html, frontMatter. So for an
  input that matches both, \<^verbatim>\<open>setext\<close> stands before \<^verbatim>\<open>list\<close>.
\<close>

theorem md_reasons_in_catalog_order:
  assumes "trim text \<noteq> []"
  shows "reasons_markdown (fst (detectTextFormat (JSString text) h)) =
         matched_features (normalize_newlines text)
           [''heading'', ''setext'', ''list'', ''blockquote'', ''fenced'', ''inlineCode'',
            ''link'', ''image'', ''tableRow'', ''hr'', ''emphasis'', ''html'', ''frontMatter'']"
  unfolding detect_string[OF assms]
  by (simp only: fst_conv detection.simps markdownScore_reasons md_matches_names)

theorem md_reasons_in_catalog_order_witness:
  "reasons_markdown (fst (detectTextFormat (JSString (str ''a'' @ [10] @ str ''- '')) initial_heap)) =
     [''setext'', ''list'']"
proof -
  let ?t = "str ''a'' @ [10] @ str ''- ''"
  have 1: "trim ?t \<noteq> []" by code_simp
  have 2: "matched_features (normalize_newlines ?t)
           [''heading'', ''setext'', ''list'', ''blockquote'', ''fenced'', ''inlineCode'',
            ''link'', ''image'', ''tableRow'', ''hr'', ''emphasis'', ''html'', ''frontMatter'']
         = [''setext'', ''list'']" by code_simp
  show ?thesis
    using md_reasons_in_catalog_order[OF 1, of initial_heap] unfolding 2 .
qed

text \<open>
  The claim as first stated has the features in the specification's order, by
  weight, with \<^verbatim>\<open>list\<close> before \<^verbatim>\<open>setext\<close>. On the two lines \<^verbatim>\<open>a\<close> and
  \<^verbatim>\<open>- \<close> both match, and the result lists \<^verbatim>\<open>setext\<close> first.
\<close>

theorem md_reasons_order_counterexample:
  "reasons_markdown (fst (detectTextFormat (JSString (str ''a'' @ [10] @ str ''- '')) initial_heap)) =
     [''setext'', ''list''] \<and>
   matched_features (normalize_newlines (str ''a'' @ [10] @ str ''- '')) claimed_reason_order =
     [''list'', ''setext'']"
proof -
  let ?t = "str ''a'' @ [10] @ str ''- ''"
  have 1: "trim ?t \<noteq> []" by code_simp
  have 2: "m_reasons (fst (markdownScore ?t initial_heap)) = [''setext'', ''list'']" by code_simp
  have 3: "matched_features (normalize_newlines ?t) claimed_reason_order = [''list'', ''setext'']"
    by code_simp
  have "reasons_markdown (fst (detectTextFormat (JSString ?t) initial_heap)) = [''setext'', ''list'']"
    unfolding detect_string[OF 1] using 2 by simp
  with 3 show ?thesis by blast
qed

section \<open>Border-like lines\<close>

lemma border_like_iff:
  "border_like line \<longleftrightarrow>
     (let t = trim line in
      3 \<le> length t \<and> in_ranges BORDER_CHARS (hd t) \<and> in_ranges BORDER_CHARS (last t) \<and>
      ((\<forall>c\<in>set t. c = hd t) \<or>
       0.8 \<le> real (length (filter (in_ranges BORDER_CHARS) t)) / real (length t)))"
proof -
  have hd: "t ! 0 = hd t" if "3 \<le> length t" for t :: jsstring
    using that by (cases t) simp_all
  show ?thesis
    unfolding border_like_def Let_def list_all_iff
    using hd[of "trim line"] by auto
qed

lemma char_step_borders: "borders (char_step ch c) = borders c"
  by (simp add: char_step_def Let_def)

lemma fold_char_step_borders: "borders (fold char_step line c) = borders c"
  by (induction line arbitrary: c) (simp_all add: char_step_borders)

lemma line_step_borders:
  "borders (line_step line c) = borders c + (if border_like line then 1 else 0)"
  by (simp add: line_step_def Let_def fold_char_step_borders)

lemma fold_line_step_borders:
  "borders (fold line_step lns c) = borders c + length (filter border_like lns)"
  by (induction lns arbitrary: c) (simp_all add: line_step_borders)

text \<open>
  Claim C6, as amended. A line counts as border-like exactly when its trimmed
  form has at least three code units, its first and its last code unit are
  border characters, and either all its code units are identical or at least
  80% of them are border characters. The counter \<^verbatim>\<open>borders\<close> of the loop counts
  exactly these lines. A line of identical characters that are not border
  characters is not border-like.
\<close>

theorem border_like_lines:
  "(border_like line \<longleftrightarrow>
     (let t = trim line in
      3 \<le> length t \<and> in_ranges BORDER_CHARS (hd t) \<and> in_ranges BORDER_CHARS (last t) \<and>
      ((\<forall>c\<in>set t. c = hd t) \<or>
       0.8 \<le> real (length (filter (in_ranges BORDER_CHARS) t)) / real (length t)))) \<and>
   borders (fold line_step lns c) = borders c + length (filter border_like lns) \<and>
   ((\<forall>c\<in>set (trim line). c = hd (trim line)) \<and> \<not> in_ranges BORDER_CHARS (hd (trim line))
      \<longrightarrow> \<not> border_like line)"
  using border_like_iff[of line] fold_line_step_borders[of lns c]
  by (simp add: Let_def)

theorem border_like_lines_witness:
  "border_like (str '' +--+ '') \<and> \<not> border_like (str ''aaaa'') \<and>
   borders (fold line_step [str ''+--+'', str ''| a|'', str ''aaaa'']
      \<lparr>total = 0, alnum = 0, sym = 0, borders = 0, runs = 0, trailing = 0, wide = 0\<rparr>) = 1"
proof -
  let ?c = "\<lparr>total = 0, alnum = 0, sym = 0, borders = 0, runs = 0, trailing = 0, wide = 0\<rparr>"
  note T = border_like_lines[of "str '' +--+ ''" "[str ''+--+'', str ''| a|'', str ''aaaa'']" ?c]
    and U = border_like_lines[of "str ''aaaa''" "[]" ?c]
  have t1: "trim (str '' +--+ '') = str ''+--+''" by code_simp
  have r1: "3 \<le> length (str ''+--+'') \<and> in_ranges BORDER_CHARS (hd (str ''+--+'')) \<and>
            in_ranges BORDER_CHARS (last (str ''+--+'')) \<and>
            0.8 \<le> real (length (filter (in_ranges BORDER_CHARS) (str ''+--+''))) / real (length (str ''+--+''))"
    by code_simp
  have b1: "border_like (str '' +--+ '')"
    using T r1 unfolding Let_def t1 by blast
  have t2: "trim (str ''aaaa'') = str ''aaaa''" by code_simp
  have r2: "(\<forall>c\<in>set (str ''aaaa''). c = hd (str ''aaaa'')) \<and> \<not> in_ranges BORDER_CHARS (hd (str ''aaaa''))"
    by code_simp
  have b2: "\<not> border_like (str ''aaaa'')"
    using U r2 unfolding t2 by blast
  have f: "filter border_like [str ''+--+'', str ''| a|'', str ''aaaa''] = [str ''+--+'']"
    by code_simp
  have b3: "borders (fold line_step [str ''+--+'', str ''| a|'', str ''aaaa''] ?c) = 1"
    using T unfolding f by simp
  show ?thesis using b1 b2 b3 by blast
qed

text \<open>
  The claim as first stated lets a line of identical characters count by that
  alone: \<^verbatim>\<open>aaaa\<close> would be border-like. The source asks for a border character
  at both ends first, so it is not.
\<close>

theorem border_like_counterexample:
  "border_like_claimed (str ''aaaa'') \<and> \<not> border_like (str ''aaaa'')"
  by code_simp

end
